theory Spec2Isabelle
  imports
    Main
    "HOL-Library.Sublist"
    "HOL-Library.Char_ord"
    "HOL-Library.List_Lexorder"
    "HOL-Library.Multiset"
begin

section \<open>The import controller of the passbolt browser extension\<close>

text \<open>
  Source: \<^verbatim>\<open>src/all/background_page/controller/import/importController.js\<close>, class
  \<^verbatim>\<open>ImportController\<close>. JavaScript strings are modelled as \<^typ>\<open>string\<close> (the order of
  \<^verbatim>\<open>Array.prototype.sort\<close> without comparator is the lexicographic order of the code
  units, here of the characters), arrays as lists, the object \<^verbatim>\<open>this.folders\<close> as a map,
  and the controller object as a record that every method takes and returns.
\<close>

subsection \<open>String and array primitives\<close>

text \<open>\<^verbatim>\<open>Number.prototype.toString()\<close> on a non-negative integer.\<close>

fun toString :: "nat \<Rightarrow> string" where
  "toString n =
     (if n < 10 then [char_of (48 + n)]
      else toString (n div 10) @ [char_of (48 + n mod 10)])"

declare toString.simps [simp del]

text \<open>\<^verbatim>\<open>s.slice(-2)\<close>: the last two characters of \<open>s\<close> (all of \<open>s\<close> when it is shorter).\<close>

definition slice_last2 :: "string \<Rightarrow> string" where
  "slice_last2 s = drop (length s - 2) s"

text \<open>\<^verbatim>\<open>items.slice(j, k)\<close> for \<open>0 \<le> j \<le> k\<close>.\<close>

definition slice :: "'a list \<Rightarrow> nat \<Rightarrow> nat \<Rightarrow> 'a list" where
  "slice items j k = take (k - j) (drop j items)"

text \<open>
  The first occurrence of \<open>pat\<close> in \<open>s\<close>: the text before it and the text after it
  (\<^verbatim>\<open>indexOf\<close>, as \<^verbatim>\<open>includes\<close> and \<^verbatim>\<open>replace\<close> with a string pattern use it).
\<close>

fun first_match :: "string \<Rightarrow> string \<Rightarrow> (string \<times> string) option" where
  "first_match pat [] = (if pat = [] then Some ([], []) else None)"
| "first_match pat (c # cs) =
     (if prefix pat (c # cs) then Some ([], drop (length pat) (c # cs))
      else (case first_match pat cs of
              None \<Rightarrow> None
            | Some (pre, post) \<Rightarrow> Some (c # pre, post)))"

definition includes_str :: "string \<Rightarrow> string \<Rightarrow> bool" where
  "includes_str s pat = (first_match pat s \<noteq> None)"

text \<open>
  \<^verbatim>\<open>GetSubstitution\<close> of ECMAScript for a string pattern (no capture groups): in the
  replacement text \<^verbatim>\<open>$$\<close> stands for one dollar, \<^verbatim>\<open>$&\<close> for the matched text,
  \<^verbatim>\<open>$`\<close> for the text before the match and \<^verbatim>\<open>$'\<close> for the text after it; every other
  character stands for itself.
\<close>

fun getSubstitution :: "string \<Rightarrow> string \<Rightarrow> string \<Rightarrow> string \<Rightarrow> string" where
  "getSubstitution matched pre post [] = []"
| "getSubstitution matched pre post [c] = [c]"
| "getSubstitution matched pre post (c # d # r) =
     (if c = CHR ''$'' \<and> d = CHR ''$'' then CHR ''$'' # getSubstitution matched pre post r
      else if c = CHR ''$'' \<and> d = CHR ''&'' then matched @ getSubstitution matched pre post r
      else if c = CHR ''$'' \<and> d = CHR 0x60 then pre @ getSubstitution matched pre post r
      else if c = CHR ''$'' \<and> d = CHR 0x27 then post @ getSubstitution matched pre post r
      else c # getSubstitution matched pre post (d # r))"

text \<open>\<^verbatim>\<open>s.replace(pat, rep)\<close> with a string pattern: only the first occurrence is replaced.\<close>

definition replace :: "string \<Rightarrow> string \<Rightarrow> string \<Rightarrow> string" where
  "replace s pat rep =
     (case first_match pat s of
        None \<Rightarrow> s
      | Some (pre, post) \<Rightarrow> pre @ getSubstitution pat pre post rep @ post)"

text \<open>\<^verbatim>\<open>s.replace(/^\//, '')\<close>: one leading slash is removed.\<close>

definition strip_leading_slash :: "string \<Rightarrow> string" where
  "strip_leading_slash s =
     (case s of [] \<Rightarrow> [] | c # cs \<Rightarrow> if c = CHR ''/'' then cs else c # cs)"

text \<open>
  \<^verbatim>\<open>s.split(sep)\<close> for a one-character separator; the empty string gives one empty
  segment. A character that is not the separator joins the first segment of the rest
  (there always is one: the case of no segment is never taken).
\<close>

fun split :: "char \<Rightarrow> string \<Rightarrow> string list" where
  "split sep [] = [[]]"
| "split sep (c # cs) =
     (if c = sep then [] # split sep cs
      else (case split sep cs of
              [] \<Rightarrow> [[c]]
            | w # ws \<Rightarrow> (c # w) # ws))"

text \<open>\<^verbatim>\<open>segments.join(sep)\<close>.\<close>

fun join :: "char \<Rightarrow> string list \<Rightarrow> string" where
  "join sep [] = []"
| "join sep [w] = w"
| "join sep (w # v # ws) = w @ sep # join sep (v # ws)"

subsection \<open>Splitting a list into batches\<close>

text \<open>
  The loop of \<^verbatim>\<open>prepareBatches\<close>: \<^verbatim>\<open>for (let i = 0, j = 0; i < chunks; i++, j += batchSize)\<close>
  with \<^verbatim>\<open>chunks = items.length / batchSize\<close>, a division of numbers and not of integers.
  For a positive batch size \<open>i < chunks\<close> is \<open>i * batchSize < items.length\<close>. For a batch
  size of zero \<open>chunks\<close> is \<^verbatim>\<open>Infinity\<close> when the list is not empty, and the loop never
  ends, and \<^verbatim>\<open>NaN\<close> when it is empty, and the loop is not entered: the product form says
  the same. A loop that does not end has the value \<open>None\<close>.
\<close>

partial_function (option) prepareBatches_loop ::
  "'a list \<Rightarrow> nat \<Rightarrow> nat \<Rightarrow> nat \<Rightarrow> 'a list list \<Rightarrow> 'a list list option" where
  "prepareBatches_loop items batchSize i j batches =
     (if i * batchSize < length items
      then prepareBatches_loop items batchSize (i + 1) (j + batchSize)
             (batches @ [slice items j (j + batchSize)])
      else Some batches)"

declare prepareBatches_loop.simps [code]

subsection \<open>Data\<close>

text \<open>
  A resource object, with the fields the controller reads or writes; a field that is absent
  or deleted is \<open>None\<close>. \<^verbatim>\<open>secrets\<close> is the list \<^verbatim>\<open>[{data: armored}]\<close>, kept as the list of
  its \<^verbatim>\<open>data\<close> texts.
\<close>

record resource =
  name :: string
  secretClear :: "string option"
  folderParentPath :: "string option"
  userId :: "string option"
  message :: "string option"
  secrets :: "string list option"
  folder_parent_id :: "string option"

text \<open>
  Resource objects are shared: \<^verbatim>\<open>this.resources\<close>, \<^verbatim>\<open>this.items.resources\<close> and the entries
  of an error list all point to the same objects, and the controller mutates them in place.
  An array of resources is therefore a list of references, and the objects live in a store.
\<close>

type_synonym ref = nat

text \<open>What \<^verbatim>\<open>new FolderEntity({name})\<close> holds, and an entity as the server returns it.\<close>

record folderE =
  folderName :: string
  folderParentId :: "string option"

record entity =
  id' :: string

record items =
  items_resources :: "ref list"
  foldersPaths :: "string list"

record options =
  importFolders :: bool
  credentials_keyFile :: "string option"

text \<open>The value of \<^verbatim>\<open>new Date()\<close>, through the getters the controller calls.\<close>

record date =
  getFullYear :: nat
  getMonth :: nat
  getDate :: nat
  getHours :: nat
  getMinutes :: nat
  getSeconds :: nat

text \<open>Exceptions that end a run.\<close>

datatype exn = Error string | ReferenceError string | TypeError string

text \<open>
  Modelled from the spec: the creation calls \<^verbatim>\<open>FolderModel.create\<close> and \<^verbatim>\<open>Resource.import\<close>
  and the errors they reject with are not in the source. The spec has them raise "a
  structured error exposing a human-readable message"; the handler of \<^verbatim>\<open>importBatch\<close>
  reads it as \<^verbatim>\<open>e.header.message\<close>.
\<close>

datatype api_error = ApiError (header_message: string)

text \<open>
  A promise can be rejected with any value. The handler of \<^verbatim>\<open>importBatch\<close> reads
  \<^verbatim>\<open>e.header.message\<close> of it: either the value is a structured error, with a header and its
  message, or it is another value, such as an \<^verbatim>\<open>Error\<close>, which has no header.
\<close>

datatype rejection = Structured api_error | Unstructured exn

text \<open>\<^verbatim>\<open>String(e)\<close> of an exception, as \<^verbatim>\<open>Error(e)\<close> computes its message.\<close>

fun exn_toString :: "exn \<Rightarrow> string" where
  "exn_toString (Error m) = (if m = [] then ''Error'' else ''Error: '' @ m)"
| "exn_toString (ReferenceError m) =
     (if m = [] then ''ReferenceError'' else ''ReferenceError: '' @ m)"
| "exn_toString (TypeError m) =
     (if m = [] then ''TypeError'' else ''TypeError: '' @ m)"

text \<open>Calls to the collaborators, in the order they are made.\<close>

datatype effect =
    ProgressOpen string nat string
  | ProgressUpdate nat "string option"
  | ProgressClose
  | KeyringSync
  | EncryptAll "resource list"
  | FolderCreate folderE
  | ResourceImport resource

text \<open>
  The controller object. \<open>store\<close> and \<open>effects\<close> are not fields of the object: they are the
  resource objects the references point to, and the log of the calls made so far.
\<close>

record controller =
  options :: options
  fileType :: string
  resources :: "ref list"
  uniqueImportTag :: string
  batchSize :: nat
  batchCount :: nat
  itemsCount :: nat
  operationsCount :: nat
  currentOperationNumber :: nat
  currentBatchNumber :: nat
  currentItemNumber :: nat
  folders :: "string \<rightharpoonup> entity"
  items :: items
  store :: "ref \<Rightarrow> resource"
  effects :: "effect list"

text \<open>The result lists of a batch and of a sequence of batches.\<close>

record 'i import_error =
  error :: string
  resource :: 'i

record ('v, 'i) importResults =
  created :: "'v list"
  errors :: "'i import_error list"

record exec_result =
  result_resources :: "(entity, ref) importResults"
  result_folders :: "(entity option, string) importResults option"
  result_importTag :: string

text \<open>
  The collaborators, none of them part of the controller: the decoders, the keyring, the
  encryption, the two creation calls, and the event loop, which decides the order in which
  the pending calls of one batch settle.
\<close>

record environment =
  keepass_toItems :: "exn + items \<times> (ref \<Rightarrow> resource)"
  csv_toResources :: "exn + ref list \<times> (ref \<Rightarrow> resource)"
  user_id :: string
  keyring_sync :: "exn option"
  crypto_encryptAll :: "resource list \<Rightarrow> exn + string list"
  folderModel_create :: "folderE \<Rightarrow> api_error + entity"
  resource_import :: "resource \<Rightarrow> api_error + entity"
  settles :: "nat \<Rightarrow> nat list"

subsection \<open>Construction and the import tag\<close>

definition generateUniqueImportTag :: "date \<Rightarrow> string \<Rightarrow> string" where
  "generateUniqueImportTag today ft =
     (let importDate =
            toString (getFullYear today) @
            slice_last2 (''0'' @ toString (getMonth today + 1)) @
            slice_last2 (''0'' @ toString (getDate today)) @
            toString (getHours today) @
            toString (getMinutes today) @
            toString (getSeconds today)
      in ''import-'' @ ft @ ''-'' @ importDate)"

definition constructor :: "date \<Rightarrow> options \<Rightarrow> string \<Rightarrow> controller" where
  "constructor today opts ft =
     \<lparr> options = opts,
       fileType = ft,
       resources = [],
       uniqueImportTag = generateUniqueImportTag today ft,
       batchSize = 5,
       batchCount = 0,
       itemsCount = 0,
       operationsCount = 0,
       currentOperationNumber = 0,
       currentBatchNumber = 0,
       currentItemNumber = 0,
       folders = Map.empty,
       items = \<lparr> items_resources = [], foldersPaths = [] \<rparr>,
       store = (\<lambda>_. \<lparr> name = [], secretClear = None, folderParentPath = None, userId = None,
                       message = None, secrets = None, folder_parent_id = None \<rparr>),
       effects = [] \<rparr>"

subsection \<open>Folder paths\<close>

text \<open>
  \<^verbatim>\<open>_getConsolidatedPath\<close>. \<^verbatim>\<open>!path\<close> holds for the empty string (and for an absent
  path, which the callers below pass as the empty string).
\<close>

definition getConsolidatedPath :: "controller \<Rightarrow> string \<Rightarrow> string" where
  "getConsolidatedPath c path =
     (if path = [] \<or> path = ''/'' then ''/'' @ uniqueImportTag c
      else if includes_str path ''/Root/''
      then replace path ''/Root/'' (''/'' @ uniqueImportTag c @ ''/'')
      else ''/'' @ uniqueImportTag c @ ''/'' @ path)"

text \<open>\<^verbatim>\<open>_prepareFolders\<close>: \<^verbatim>\<open>map\<close>, \<^verbatim>\<open>includes\<close>, \<^verbatim>\<open>unshift\<close>, \<^verbatim>\<open>sort\<close>.\<close>

definition prepareFolders :: "controller \<Rightarrow> controller" where
  "prepareFolders c =
     (let paths = map (getConsolidatedPath c) (foldersPaths (items c));
          rootPath = getConsolidatedPath c ''/'';
          paths' = (if rootPath \<in> set paths then paths else rootPath # paths)
      in c\<lparr>items := (items c)\<lparr>foldersPaths := sort paths'\<rparr>\<rparr>)"

definition getFolderFromPath :: "controller \<Rightarrow> string \<Rightarrow> entity option" where
  "getFolderFromPath c path = folders c path"

text \<open>The three values \<^verbatim>\<open>saveFolder\<close> derives from a path: the segments, the name of the
  folder (\<^verbatim>\<open>pop\<close>) and the path of its parent, empty when no segment is left.\<close>

definition folderSplit :: "string \<Rightarrow> string list" where
  "folderSplit folderPath = split (CHR ''/'') (strip_leading_slash folderPath)"

definition folderName_of :: "string \<Rightarrow> string" where
  "folderName_of folderPath = last (folderSplit folderPath)"

definition folderParent :: "string \<Rightarrow> string" where
  "folderParent folderPath =
     (let rest = butlast (folderSplit folderPath)
      in if rest \<noteq> [] then ''/'' @ join (CHR ''/'') rest else [])"

subsection \<open>Progress counters and batches\<close>

definition prepareProgressCounter :: "controller \<Rightarrow> controller" where
  "prepareProgressCounter c =
     (let n = length (items_resources (items c));
          c1 = c\<lparr>operationsCount := operationsCount c + n * 2, itemsCount := n\<rparr>
      in if importFolders (options c1)
         then c1\<lparr>operationsCount := operationsCount c1 + length (foldersPaths (items c1)),
                 itemsCount := itemsCount c1 + length (foldersPaths (items c1))\<rparr>
         else c1)"

definition prepareBatches :: "controller \<Rightarrow> 'a list \<Rightarrow> ('a list list \<times> controller) option" where
  "prepareBatches c its =
     (case prepareBatches_loop its (batchSize c) 0 0 [] of
        None \<Rightarrow> None
      | Some batches \<Rightarrow> Some (batches, c\<lparr>batchCount := batchCount c + length batches\<rparr>))"

subsection \<open>Promises\<close>

text \<open>
  A call of an \<^verbatim>\<open>async\<close> function runs up to its first \<^verbatim>\<open>await\<close> and returns a promise.
  The promise is modelled by what happens when it settles: a function from the state at
  that moment to the new state and to \<open>Inl\<close> of the rejection or \<open>Inr\<close> of the value.
\<close>

type_synonym ('s, 'e, 'v) promise = "'s \<Rightarrow> ('e + 'v) \<times> 's"

definition then_promise ::
  "('s, 'e, 'v) promise \<Rightarrow> ('v \<Rightarrow> 's \<Rightarrow> ('e + 'w) \<times> 's) \<Rightarrow> ('s, 'e, 'w) promise" where
  "then_promise p onFulfilled =
     (\<lambda>s. case p s of (Inl e, s') \<Rightarrow> (Inl e, s') | (Inr v, s') \<Rightarrow> onFulfilled v s')"

definition catch_promise ::
  "('s, 'e, 'v) promise \<Rightarrow> ('e \<Rightarrow> 's \<Rightarrow> ('f + 'v) \<times> 's) \<Rightarrow> ('s, 'f, 'v) promise" where
  "catch_promise p onRejected =
     (\<lambda>s. case p s of (Inl e, s') \<Rightarrow> onRejected e s' | (Inr v, s') \<Rightarrow> (Inr v, s'))"

text \<open>
  \<^verbatim>\<open>await Promise.all(promises)\<close>, the promises given in the order in which they settle.
  The await throws as soon as one promise is rejected: the run goes on from the state of
  that moment, and the promises that are still pending settle after it, with no part in
  the result. When no promise is rejected the await returns; the values are not used.
\<close>

fun promise_all :: "('s, 'e, 'v) promise list \<Rightarrow> 's \<Rightarrow> ('e + unit) \<times> 's" where
  "promise_all [] s = (Inr (), s)"
| "promise_all (p # ps) s =
     (case p s of
        (Inl e, s1) \<Rightarrow> (Inl e, s1)
      | (Inr v, s1) \<Rightarrow> promise_all ps s1)"

text \<open>\<^verbatim>\<open>array.map(f)\<close> with a callback that changes the state: the calls are made in order.\<close>

fun map_calls :: "('i \<Rightarrow> 's \<Rightarrow> 'p \<times> 's) \<Rightarrow> 'i list \<Rightarrow> 's \<Rightarrow> 'p list \<times> 's" where
  "map_calls f [] s = ([], s)"
| "map_calls f (x # xs) s =
     (let (p, s1) = f x s; (ps, s2) = map_calls f xs s1 in (p # ps, s2))"

text \<open>
  The order in which the pending promises of a batch settle is the event loop's: the
  \<open>k\<close>-th choice takes one of the promises still pending. Every list of choices gives a
  permutation, and every permutation is given by some list of choices.
\<close>

fun settle_order :: "nat list \<Rightarrow> 'a list \<Rightarrow> 'a list" where
  "settle_order choices [] = []"
| "settle_order [] (x # xs) = x # xs"
| "settle_order (k # choices) (x # xs) =
     (let n = k mod length (x # xs)
      in (x # xs) ! n # settle_order choices (take n (x # xs) @ drop (Suc n) (x # xs)))"

subsection \<open>Importing a batch\<close>

definition progress_open :: "string \<Rightarrow> nat \<Rightarrow> string \<Rightarrow> controller \<Rightarrow> controller" where
  "progress_open title goals msg c = c\<lparr>effects := effects c @ [ProgressOpen title goals msg]\<rparr>"

definition progress_update :: "nat \<Rightarrow> string option \<Rightarrow> controller \<Rightarrow> controller" where
  "progress_update step msg c = c\<lparr>effects := effects c @ [ProgressUpdate step msg]\<rparr>"

definition progress_close :: "controller \<Rightarrow> controller" where
  "progress_close c = c\<lparr>effects := effects c @ [ProgressClose]\<rparr>"

text \<open>
  The three statements both handlers of \<^verbatim>\<open>importBatch\<close> start with. The handler of a
  rejection then reads \<^verbatim>\<open>e.header.message\<close> for the entry it pushes: on a value without
  header this throws a \<^verbatim>\<open>TypeError\<close> (the text of its message is the engine's), nothing is
  pushed and the promise of the item is rejected.
\<close>

definition item_done :: "controller \<Rightarrow> controller" where
  "item_done c =
     (let c1 = c\<lparr>currentItemNumber := currentItemNumber c + 1\<rparr>;
          c2 = c1\<lparr>currentOperationNumber := currentOperationNumber c1 + 1\<rparr>
      in progress_update (currentOperationNumber c2)
           (Some (''Importing...  '' @ toString (currentItemNumber c2) @ ''/'' @
                  toString (itemsCount c2))) c2)"

definition onCreated ::
  "'v \<Rightarrow> controller \<times> ('v, 'i) importResults \<Rightarrow>
   (rejection + unit) \<times> controller \<times> ('v, 'i) importResults" where
  "onCreated v s =
     (case s of (c, importResults) \<Rightarrow>
        (Inr (), item_done c, importResults\<lparr>created := created importResults @ [v]\<rparr>))"

definition onRejected ::
  "'i \<Rightarrow> rejection \<Rightarrow> controller \<times> ('v, 'i) importResults \<Rightarrow>
   (exn + unit) \<times> controller \<times> ('v, 'i) importResults" where
  "onRejected res e s =
     (case s of (c, importResults) \<Rightarrow>
        (case e of
           Structured a \<Rightarrow>
             (Inr (), item_done c,
              importResults\<lparr>errors := errors importResults @
                [\<lparr>error = header_message a, resource = res\<rparr>]\<rparr>)
         | Unstructured x \<Rightarrow>
             (Inl (TypeError ''e.header is undefined''), item_done c, importResults)))"

text \<open>The promise of the worker acts on the controller; the handlers also on the lists.\<close>

definition on_controller ::
  "(controller, 'e, 'v) promise \<Rightarrow> (controller \<times> 'r, 'e, 'v) promise" where
  "on_controller p = (\<lambda>s. case s of (c, r) \<Rightarrow> (case p c of (out, c') \<Rightarrow> (out, c', r)))"

text \<open>\<^verbatim>\<open>importFn(resource).then(...).catch(...)\<close>, the callback of \<^verbatim>\<open>resourcesBatch.map\<close>.\<close>

definition item_promise ::
  "('i \<Rightarrow> controller \<Rightarrow> (controller, rejection, 'v) promise \<times> controller) \<Rightarrow> 'i \<Rightarrow>
   controller \<Rightarrow> (controller \<times> ('v, 'i) importResults, exn, unit) promise \<times> controller" where
  "item_promise importFn res c =
     (case importFn res c of (p, c') \<Rightarrow>
        (catch_promise (then_promise (on_controller p) onCreated) (onRejected res), c'))"

text \<open>
  \<^verbatim>\<open>importBatch\<close>: every item's worker is called, in order, before any promise settles;
  then the promises settle in the order of the event loop, each running its handler; the
  \<^verbatim>\<open>await Promise.all\<close> throws when one of the mapped promises is rejected. The parameter
  \<open>batchNumber\<close> is not used, as in the source.
\<close>

definition importBatch ::
  "environment \<Rightarrow> 'i list \<Rightarrow> nat \<Rightarrow>
   ('i \<Rightarrow> controller \<Rightarrow> (controller, rejection, 'v) promise \<times> controller) \<Rightarrow>
   controller \<Rightarrow> (exn + ('v, 'i) importResults) \<times> controller" where
  "importBatch env resourcesBatch batchNumber importFn c =
     (let c1 = c\<lparr>currentBatchNumber := currentBatchNumber c + 1\<rparr>
      in case map_calls (item_promise importFn) resourcesBatch c1 of
           (promises, c2) \<Rightarrow>
             (case promise_all (settle_order (settles env (currentBatchNumber c1)) promises)
                     (c2, \<lparr>created = [], errors = []\<rparr>) of
                (Inl e, c3, importResults) \<Rightarrow> (Inl e, c3)
              | (Inr _, c3, importResults) \<Rightarrow> (Inr importResults, c3)))"

text \<open>\<^verbatim>\<open>processBatches\<close>: the batches one after the other, the two lists appended.\<close>

fun processBatches_loop ::
  "environment \<Rightarrow> 'i list list \<Rightarrow>
   ('i \<Rightarrow> controller \<Rightarrow> (controller, rejection, 'v) promise \<times> controller) \<Rightarrow>
   nat \<Rightarrow> ('v, 'i) importResults \<Rightarrow> controller \<Rightarrow>
   (exn + ('v, 'i) importResults) \<times> controller" where
  "processBatches_loop env [] importFn batchNumber batchResults c = (Inr batchResults, c)"
| "processBatches_loop env (batch # batches) importFn batchNumber batchResults c =
     (case importBatch env batch batchNumber importFn c of
        (Inl e, c') \<Rightarrow> (Inl e, c')
      | (Inr importBatchResult, c') \<Rightarrow>
          processBatches_loop env batches importFn (batchNumber + 1)
            \<lparr>created = created batchResults @ created importBatchResult,
             errors = errors batchResults @ errors importBatchResult\<rparr> c')"

definition processBatches ::
  "environment \<Rightarrow> 'i list list \<Rightarrow>
   ('i \<Rightarrow> controller \<Rightarrow> (controller, rejection, 'v) promise \<times> controller) \<Rightarrow>
   controller \<Rightarrow> (exn + ('v, 'i) importResults) \<times> controller" where
  "processBatches env batches importFn c =
     processBatches_loop env batches importFn 0 \<lparr>created = [], errors = []\<rparr> c"

subsection \<open>The two workers\<close>

text \<open>
  \<^verbatim>\<open>saveFolder\<close>. Without a registered parent it returns at once, and its promise is
  fulfilled with \<^verbatim>\<open>undefined\<close> (\<open>None\<close>). Otherwise the creation call is made, and when
  it settles the entity is stored in \<^verbatim>\<open>this.folders\<close> and returned. \<^verbatim>\<open>new FolderEntity\<close>
  only builds the object; what the server makes of it is the outcome of the creation call.
\<close>

definition saveFolder ::
  "environment \<Rightarrow> string \<Rightarrow> controller \<Rightarrow>
   (controller, rejection, entity option) promise \<times> controller" where
  "saveFolder env folderPath c =
     (let name = folderName_of folderPath;
          parent = folderParent folderPath;
          folderE = \<lparr>folderName = name, folderParentId = None\<rparr>;
          create = (\<lambda>fe.
            ((\<lambda>c'. case folderModel_create env fe of
                      Inl e \<Rightarrow> (Inl (Structured e), c')
                    | Inr f \<Rightarrow> (Inr (Some f), c'\<lparr>folders := (folders c')(folderPath \<mapsto> f)\<rparr>)),
             c\<lparr>effects := effects c @ [FolderCreate fe]\<rparr>))
      in if parent \<noteq> []
         then (case getFolderFromPath c parent of
                 None \<Rightarrow> ((\<lambda>c'. (Inr None, c')), c)
               | Some parentFolder \<Rightarrow> create (folderE\<lparr>folderParentId := Some (id' parentFolder)\<rparr>))
         else create folderE)"

text \<open>
  \<^verbatim>\<open>saveResource\<close>: the resource object gets the identifier of its folder when folders
  are imported and the folder is registered, and \<^verbatim>\<open>Resource.import\<close> is called on it.
\<close>

definition saveResource ::
  "environment \<Rightarrow> ref \<Rightarrow> controller \<Rightarrow> (controller, rejection, entity) promise \<times> controller" where
  "saveResource env r c =
     (let folderPath = getConsolidatedPath c
            (case folderParentPath (store c r) of None \<Rightarrow> [] | Some p \<Rightarrow> p);
          folderExist = getFolderFromPath c folderPath;
          c1 = (case folderExist of
                  None \<Rightarrow> c
                | Some f \<Rightarrow>
                    if importFolders (options c)
                    then c\<lparr>store := (store c)(r := (store c r)\<lparr>folder_parent_id := Some (id' f)\<rparr>)\<rparr>
                    else c);
          out = (case resource_import env (store c1 r) of
                   Inl e \<Rightarrow> Inl (Structured e)
                 | Inr v \<Rightarrow> Inr v)
      in ((\<lambda>c'. (out, c')), c1\<lparr>effects := effects c1 @ [ResourceImport (store c1 r)]\<rparr>))"

subsection \<open>Encrypting the secrets\<close>

text \<open>\<^verbatim>\<open>_prepareResources\<close>: each object gets the user and its clear secret as message.\<close>

definition prepareResource :: "string \<Rightarrow> resource \<Rightarrow> resource" where
  "prepareResource uid res =
     res\<lparr>userId := Some uid, message := secretClear res, secretClear := None\<rparr>"

definition prepareResources ::
  "ref list \<Rightarrow> string \<Rightarrow> (ref \<Rightarrow> resource) \<Rightarrow> ref list \<times> (ref \<Rightarrow> resource)" where
  "prepareResources refs uid st =
     (refs, fold (\<lambda>r st'. st'(r := prepareResource uid (st' r))) refs st)"

text \<open>The two callbacks \<^verbatim>\<open>_encryptSecretsForUser\<close> passes to the encryption.\<close>

definition onStart :: "nat \<Rightarrow> controller \<Rightarrow> controller" where
  "onStart position c =
     progress_update (currentOperationNumber c)
       (Some (''Encrypting '' @ toString (position + 1) @ ''/'' @
              toString (length (items_resources (items c))))) c"

definition onComplete :: "controller \<Rightarrow> controller" where
  "onComplete c =
     (progress_update (currentOperationNumber c) None c)
       \<lparr>currentOperationNumber := currentOperationNumber c + 1\<rparr>"

text \<open>
  Modelled from the spec: \<^verbatim>\<open>Crypto.encryptAll\<close> is not in the source. The spec has it call
  the start callback with the index before it encrypts each item and the completion
  callback after it, and return the list of payloads; the payloads are the environment's.
\<close>

fun encryptAll_callbacks :: "nat list \<Rightarrow> controller \<Rightarrow> controller" where
  "encryptAll_callbacks [] c = c"
| "encryptAll_callbacks (position # positions) c =
     encryptAll_callbacks positions (onComplete (onStart position c))"

definition encryptAll :: "environment \<Rightarrow> controller \<Rightarrow> (exn + string list) \<times> controller" where
  "encryptAll env c =
     (let objs = map (store c) (items_resources (items c));
          c1 = c\<lparr>effects := effects c @ [EncryptAll objs]\<rparr>
      in (crypto_encryptAll env objs, encryptAll_callbacks [0 ..< length objs] c1))"

definition encryptSecretsForUser ::
  "environment \<Rightarrow> string \<Rightarrow> controller \<Rightarrow> (exn + string list) \<times> controller" where
  "encryptSecretsForUser env uid c =
     (case prepareResources (items_resources (items c)) uid (store c) of
        (refs, st) \<Rightarrow> encryptAll env (c\<lparr>items := (items c)\<lparr>items_resources := refs\<rparr>, store := st\<rparr>))"

text \<open>\<^verbatim>\<open>_enrichResourcesWithArmoredSecret\<close>.\<close>

definition enrichResource :: "string \<Rightarrow> resource \<Rightarrow> resource" where
  "enrichResource armored res =
     (if message res \<noteq> Some [] then res\<lparr>secrets := Some [armored]\<rparr> else res)
       \<lparr>message := None, userId := None\<rparr>"

definition enrichResourcesWithArmoredSecret ::
  "string list \<Rightarrow> controller \<Rightarrow> (exn + unit) \<times> controller" where
  "enrichResourcesWithArmoredSecret armoredSecrets c =
     (if length armoredSecrets \<noteq> length (items_resources (items c))
      then (Inl (Error ''There was a problem while encrypting the secrets''), c)
      else (Inr (),
            c\<lparr>store := fold (\<lambda>(r, armored) st. st(r := enrichResource armored (st r)))
                          (zip (items_resources (items c)) armoredSecrets) (store c)\<rparr>))"

definition encryptSecretsAndAddToResources ::
  "environment \<Rightarrow> controller \<Rightarrow> (exn + unit) \<times> controller" where
  "encryptSecretsAndAddToResources env c =
     (let c1 = c\<lparr>resources := items_resources (items c)\<rparr>;
          c2 = c1\<lparr>operationsCount := length (resources c1) * 2\<rparr>;
          c3 = c2\<lparr>effects := effects c2 @ [KeyringSync]\<rparr>
      in case keyring_sync env of
           Some e \<Rightarrow> (Inl e, c3)
         | None \<Rightarrow>
             (case encryptSecretsForUser env (user_id env) c3 of
                (Inl e, c4) \<Rightarrow> (Inl e, c4)
              | (Inr armoredSecrets, c4) \<Rightarrow>
                  enrichResourcesWithArmoredSecret armoredSecrets c4))"

subsection \<open>The run\<close>

text \<open>
  \<^verbatim>\<open>initFromKdbx\<close> assigns to \<^verbatim>\<open>credentials.keyFile\<close>, and no \<^verbatim>\<open>credentials\<close> is declared:
  with a key file the statement throws. The decoders themselves are collaborators.
\<close>

definition initFromKdbx :: "environment \<Rightarrow> controller \<Rightarrow> (exn + unit) \<times> controller" where
  "initFromKdbx env c =
     (if credentials_keyFile (options c) \<noteq> None
      then (Inl (ReferenceError ''credentials is not defined''), c)
      else (case keepass_toItems env of
              Inl e \<Rightarrow> (Inl e, c)
            | Inr (its, st) \<Rightarrow> (Inr (), c\<lparr>items := its, store := st\<rparr>)))"

definition initFromCsv :: "environment \<Rightarrow> controller \<Rightarrow> (exn + unit) \<times> controller" where
  "initFromCsv env c =
     (case csv_toResources env of
        Inl e \<Rightarrow> (Inl e, c)
      | Inr (refs, st) \<Rightarrow> (Inr (), c\<lparr>items := (items c)\<lparr>items_resources := refs\<rparr>, store := st\<rparr>))"

text \<open>The body of the \<^verbatim>\<open>try\<close> block of \<^verbatim>\<open>exec\<close>, in its three stages.\<close>

definition exec_folders ::
  "environment \<Rightarrow> controller \<Rightarrow>
   ((exn + (entity option, string) importResults option) \<times> controller) option" where
  "exec_folders env c =
     (if importFolders (options c)
      then (case prepareBatches c (foldersPaths (items c)) of
              None \<Rightarrow> None
            | Some (folderBatches, c1) \<Rightarrow>
                (case processBatches env folderBatches (saveFolder env) c1 of
                   (Inl e, c2) \<Rightarrow> Some (Inl e, c2)
                 | (Inr fs, c2) \<Rightarrow> Some (Inr (Some fs), c2)))
      else Some (Inr None, c))"

definition exec_resources ::
  "environment \<Rightarrow> (entity option, string) importResults option \<Rightarrow> controller \<Rightarrow>
   ((exn + exec_result) \<times> controller) option" where
  "exec_resources env fs c =
     (case prepareBatches c (items_resources (items c)) of
        None \<Rightarrow> None
      | Some (resourceBatches, c1) \<Rightarrow>
          (case processBatches env resourceBatches (saveResource env) c1 of
             (Inl e, c2) \<Rightarrow> Some (Inl e, c2)
           | (Inr rs, c2) \<Rightarrow>
               Some (Inr \<lparr>result_resources = rs, result_folders = fs,
                          result_importTag = uniqueImportTag c2\<rparr>,
                     progress_close c2)))"

definition exec_try :: "environment \<Rightarrow> controller \<Rightarrow> ((exn + exec_result) \<times> controller) option" where
  "exec_try env c =
     (case encryptSecretsAndAddToResources env c of
        (Inl e, c1) \<Rightarrow> Some (Inl e, c1)
      | (Inr _, c1) \<Rightarrow>
          (case exec_folders env c1 of
             None \<Rightarrow> None
           | Some (Inl e, c2) \<Rightarrow> Some (Inl e, c2)
           | Some (Inr fs, c2) \<Rightarrow> exec_resources env fs c2))"

text \<open>
  \<^verbatim>\<open>exec\<close>. \<open>None\<close>: the run does not return. An exception of the \<^verbatim>\<open>try\<close> block closes the
  progress dialog and is thrown again as \<^verbatim>\<open>Error(e)\<close>.
\<close>

definition init :: "environment \<Rightarrow> controller \<Rightarrow> (exn + unit) \<times> controller" where
  "init env c =
     (if fileType c = ''kdbx'' then initFromKdbx env c
      else if fileType c = ''csv'' then initFromCsv env c
      else (Inr (), c))"

definition exec :: "environment \<Rightarrow> controller \<Rightarrow> ((exn + exec_result) \<times> controller) option" where
  "exec env c =
     (case init env c of
        (Inl e, c1) \<Rightarrow> Some (Inl e, c1)
      | (Inr _, c1) \<Rightarrow>
          (let c2 = prepareProgressCounter (prepareFolders c1);
               c3 = progress_open ''Importing ...'' (operationsCount c2) ''Preparing import'' c2
           in case exec_try env c3 of
                None \<Rightarrow> None
              | Some (Inl e, c4) \<Rightarrow> Some (Inl (Error (exn_toString e)), progress_close c4)
              | Some (Inr result, c4) \<Rightarrow> Some (Inr result, c4)))"

subsection \<open>Settlements\<close>

text \<open>
  A settlement is an item with the outcome of its worker's promise, a value or a
  structured error. These are the two lists the handlers of \<^verbatim>\<open>importBatch\<close> build from a
  sequence of settlements, and \<open>outcome\<close> is the settlement as the promise has it.
\<close>

definition outcome :: "api_error + 'v \<Rightarrow> rejection + 'v" where
  "outcome out = (case out of Inl a \<Rightarrow> Inl (Structured a) | Inr v \<Rightarrow> Inr v)"

fun created_of :: "('i \<times> (api_error + 'v)) list \<Rightarrow> 'v list" where
  "created_of [] = []"
| "created_of ((x, Inr v) # tr) = v # created_of tr"
| "created_of ((x, Inl e) # tr) = created_of tr"

fun errors_of :: "('i \<times> (api_error + 'v)) list \<Rightarrow> 'i import_error list" where
  "errors_of [] = []"
| "errors_of ((x, Inr v) # tr) = errors_of tr"
| "errors_of ((x, Inl e) # tr) = \<lparr>error = header_message e, resource = x\<rparr> # errors_of tr"

text \<open>The calls to the two creation collaborators.\<close>

fun is_creation :: "effect \<Rightarrow> bool" where
  "is_creation (FolderCreate fe) = True"
| "is_creation (ResourceImport res) = True"
| "is_creation e = False"

subsection \<open>Concrete runs\<close>

definition example_date :: date where
  "example_date = \<lparr>getFullYear = 2024, getMonth = 0, getDate = 1,
                    getHours = 9, getMinutes = 5, getSeconds = 3\<rparr>"

definition example_options :: options where
  "example_options = \<lparr>importFolders = True, credentials_keyFile = None\<rparr>"

definition example_controller :: controller where
  "example_controller = constructor example_date example_options ''kdbx''"

text \<open>Two decoded paths that both stand for the root.\<close>

definition two_roots :: controller where
  "two_roots = example_controller
     \<lparr>items := \<lparr>items_resources = [], foldersPaths = ['''', ''/'']\<rparr>\<rparr>"

text \<open>A decoded folder tree, the child first.\<close>

definition example_tree :: controller where
  "example_tree = example_controller
     \<lparr>items := \<lparr>items_resources = [], foldersPaths = [''Work/Sub'', ''Work'']\<rparr>\<rparr>"

text \<open>
  Twelve resources \<open>r0\<close> to \<open>r11\<close> in the folder \<open>Work\<close>, each with a secret. The server
  refuses the resource \<open>r6\<close> and accepts every other resource and every folder; the
  promises of a batch settle in the order of their calls.
\<close>

definition example_resource :: "ref \<Rightarrow> resource" where
  "example_resource r =
     \<lparr>name = CHR ''r'' # toString r, secretClear = Some ''secret'',
      folderParentPath = Some ''Work'', userId = None, message = None, secrets = None,
      folder_parent_id = None\<rparr>"

definition example_env :: environment where
  "example_env =
     \<lparr>keepass_toItems =
        Inr (\<lparr>items_resources = [0 ..< 12], foldersPaths = [''Work'']\<rparr>, example_resource),
      csv_toResources = Inr ([0 ..< 1], example_resource),
      user_id = ''user'',
      keyring_sync = None,
      crypto_encryptAll = (\<lambda>objs. Inr (map (\<lambda>res. ''armored '' @ name res) objs)),
      folderModel_create = (\<lambda>fe. Inr \<lparr>id' = ''id of '' @ folderName fe\<rparr>),
      resource_import =
        (\<lambda>res. if name res = ''r6'' then Inl (ApiError ''Could not validate resource data.'')
               else Inr \<lparr>id' = ''id of '' @ name res\<rparr>),
      settles = (\<lambda>batch. [])\<rparr>"

text \<open>The same collaborators, but an encryption that returns no payload at all.\<close>

definition short_env :: environment where
  "short_env = example_env\<lparr>crypto_encryptAll := (\<lambda>objs. Inr [])\<rparr>"

definition csv_controller :: controller where
  "csv_controller = constructor example_date example_options ''csv''"

text \<open>A worker that the server refuses for the item 6 and for no other item.\<close>

definition refuse_six ::
  "nat \<Rightarrow> controller \<Rightarrow> (controller, rejection, nat) promise \<times> controller" where
  "refuse_six x c =
     ((\<lambda>c'. (if x = 6 then Inl (Structured (ApiError ''Could not validate resource data.''))
             else Inr x, c')),
      c)"

text \<open>A worker whose request for the item 6 fails before any answer of the server.\<close>

definition network_failure ::
  "nat \<Rightarrow> controller \<Rightarrow> (controller, rejection, nat) promise \<times> controller" where
  "network_failure x c =
     ((\<lambda>c'. (if x = 6
              then Inl (Unstructured (TypeError ''NetworkError when attempting to fetch resource.''))
              else Inr x, c')),
      c)"

text \<open>The \<^verbatim>\<open>csv\<close> run with one resource, after decoding and after the progress counters are set.\<close>

definition csv_loaded :: controller where
  "csv_loaded = snd (init example_env csv_controller)"

definition csv_progress_init :: controller where
  "csv_progress_init = prepareProgressCounter (prepareFolders csv_loaded)"

section \<open>Batches\<close>

text \<open>
  For a positive batch size the loop of \<^verbatim>\<open>prepareBatches\<close> ends, and what it adds to the
  batches it started with is the rest of the list from \<open>i * batchSize\<close> on, cut into
  slices: none of them empty, none longer than the batch size, all but the last full.
\<close>

lemma prepareBatches_loop_correct:
  assumes "0 < bs"
  shows "\<exists>new. prepareBatches_loop its bs i (i * bs) acc = Some (acc @ new)
           \<and> concat new = drop (i * bs) its
           \<and> [] \<notin> set new
           \<and> (\<forall>b \<in> set new. length b \<le> bs)
           \<and> (\<forall>b \<in> set (butlast new). length b = bs)"
proof (induction "length its - i * bs" arbitrary: i acc rule: less_induct)
  case less
  show ?case
  proof (cases "i * bs < length its")
    case False
    then show ?thesis
      by (subst prepareBatches_loop.simps) simp
  next
    case True
    let ?b = "slice its (i * bs) (i * bs + bs)"
    have dec: "length its - (i + 1) * bs < length its - i * bs"
      using True assms by (simp add: algebra_simps)
    from less[OF dec, of "acc @ [?b]"]
    obtain new where new:
      "prepareBatches_loop its bs (i + 1) ((i + 1) * bs) (acc @ [?b]) = Some ((acc @ [?b]) @ new)"
      "concat new = drop ((i + 1) * bs) its"
      "[] \<notin> set new"
      "\<forall>b \<in> set new. length b \<le> bs"
      "\<forall>b \<in> set (butlast new). length b = bs"
      by blast
    have step: "prepareBatches_loop its bs i (i * bs) acc = Some (acc @ ?b # new)"
      using True new(1) by (subst prepareBatches_loop.simps) (simp add: algebra_simps)
    have b_def: "?b = take bs (drop (i * bs) its)"
      by (simp add: slice_def)
    have cat: "concat (?b # new) = drop (i * bs) its"
    proof -
      have "take bs (drop (i * bs) its) @ drop bs (drop (i * bs) its) = drop (i * bs) its"
        by (rule append_take_drop_id)
      then show ?thesis using new(2) b_def by (simp add: algebra_simps)
    qed
    have ne: "?b \<noteq> []"
      using True assms b_def by simp
    have len: "length ?b \<le> bs"
      using b_def by simp
    have full: "new \<noteq> [] \<Longrightarrow> length ?b = bs"
    proof -
      assume "new \<noteq> []"
      then have "concat new \<noteq> []" using new(3) by (cases new) auto
      then have "(i + 1) * bs < length its" using new(2) by simp
      then show "length ?b = bs" using b_def by (simp add: algebra_simps)
    qed
    have "\<forall>b \<in> set (butlast (?b # new)). length b = bs"
      using new(5) full by auto
    moreover have "\<forall>b \<in> set (?b # new). length b \<le> bs"
      using new(4) len by auto
    moreover have "[] \<notin> set (?b # new)"
      using new(3) ne by auto
    ultimately show ?thesis
      using step cat by blast
  qed
qed

text \<open>
  Claim C6. For every item list (also of a length that the batch size does not divide) and
  every positive batch size, \<^verbatim>\<open>prepareBatches\<close> returns, and adds the number of batches to
  \<^verbatim>\<open>batchCount\<close>: the batches, concatenated, are the list in its order, every batch has at
  most \<open>batchSize\<close> items and every batch but the last has exactly \<open>batchSize\<close> items. The
  constructor sets the batch size to 5; with a batch size of 0 and an item the loop
  would not end.
\<close>

theorem prepareBatches_partition:
  assumes "0 < batchSize c"
  shows "\<exists>batches. prepareBatches c its = Some (batches, c\<lparr>batchCount := batchCount c + length batches\<rparr>)
           \<and> concat batches = its
           \<and> (\<forall>b \<in> set batches. length b \<le> batchSize c)
           \<and> (\<forall>b \<in> set (butlast batches). length b = batchSize c)"
proof -
  from prepareBatches_loop_correct[OF assms, of its 0 "[]"]
  obtain new where new:
    "prepareBatches_loop its (batchSize c) 0 0 [] = Some new"
    "concat new = its"
    "\<forall>b \<in> set new. length b \<le> batchSize c"
    "\<forall>b \<in> set (butlast new). length b = batchSize c"
    by auto
  then show ?thesis
    by (auto simp: prepareBatches_def)
qed

theorem prepareBatches_partition_witness:
  "0 < batchSize example_controller \<and>
   (\<exists>batches. prepareBatches example_controller [1 :: nat, 2, 3, 4, 5, 6, 7, 8, 9, 10, 11, 12] =
        Some (batches,
              example_controller\<lparr>batchCount := batchCount example_controller + length batches\<rparr>)
      \<and> concat batches = [1, 2, 3, 4, 5, 6, 7, 8, 9, 10, 11, 12]
      \<and> (\<forall>b \<in> set batches. length b \<le> batchSize example_controller)
      \<and> (\<forall>b \<in> set (butlast batches). length b = batchSize example_controller))"
proof -
  have h: "0 < batchSize example_controller"
    by (simp add: example_controller_def constructor_def)
  show ?thesis
    by (rule conjI[OF h prepareBatches_partition[OF h]])
qed

text \<open>The scenario of the specification: twelve items in batches of five.\<close>

lemma prepareBatches_twelve:
  "prepareBatches_loop [1 :: nat, 2, 3, 4, 5, 6, 7, 8, 9, 10, 11, 12] 5 0 0 [] =
     Some [[1, 2, 3, 4, 5], [6, 7, 8, 9, 10], [11, 12]]"
  by code_simp

section \<open>Folder paths\<close>

subsection \<open>Searching and replacing\<close>

lemma first_match_Some:
  "first_match pat s = Some (b, a) \<Longrightarrow> s = b @ pat @ a"
proof (induction s arbitrary: b)
  case Nil
  then show ?case by (simp split: if_splits)
next
  case (Cons c cs)
  show ?case
  proof (cases "prefix pat (c # cs)")
    case True
    then have "first_match pat (c # cs) = Some ([], drop (length pat) (c # cs))" by simp
    with Cons.prems have ba: "b = []" "a = drop (length pat) (c # cs)" by simp_all
    from True obtain zs where zs: "c # cs = pat @ zs" by (auto simp: prefix_def)
    then have "drop (length pat) (c # cs) = zs" by simp
    with ba zs show ?thesis by simp
  next
    case False
    with Cons.prems obtain b' where "first_match pat cs = Some (b', a)" "b = c # b'"
      by (auto split: option.splits)
    with Cons.IH show ?thesis by auto
  qed
qed

lemma first_match_least:
  "first_match pat s = Some (b, a) \<Longrightarrow> s = b' @ pat @ a' \<Longrightarrow> length b \<le> length b'"
proof (induction s arbitrary: b b')
  case Nil
  then show ?case by (simp split: if_splits)
next
  case (Cons c cs)
  show ?case
  proof (cases "prefix pat (c # cs)")
    case True
    then have "first_match pat (c # cs) = Some ([], drop (length pat) (c # cs))" by simp
    with Cons.prems(1) have "b = []" by simp
    then show ?thesis by simp
  next
    case False
    with Cons.prems(1) obtain b0 where b0: "first_match pat cs = Some (b0, a)" "b = c # b0"
      by (auto split: option.splits)
    from False Cons.prems(2) have "b' \<noteq> []" by (auto simp: prefix_def)
    then obtain b1 where b1: "b' = c # b1" "cs = b1 @ pat @ a'"
      using Cons.prems(2) by (cases b') auto
    from Cons.IH[OF b0(1) b1(2)] show ?thesis using b0 b1 by simp
  qed
qed

lemma first_match_None:
  "first_match pat s = None \<Longrightarrow> s \<noteq> b @ pat @ a"
proof (induction s arbitrary: b)
  case Nil
  then show ?case by (auto split: if_splits)
next
  case (Cons c cs)
  from Cons.prems have np: "\<not> prefix pat (c # cs)" and n: "first_match pat cs = None"
    by (auto split: if_splits option.splits)
  show ?case
  proof
    assume eq: "c # cs = b @ pat @ a"
    from np eq have "b \<noteq> []" by (auto simp: prefix_def)
    then obtain b1 where "b = c # b1" "cs = b1 @ pat @ a"
      using eq by (cases b) auto
    with Cons.IH[OF n] show False by blast
  qed
qed

lemma includes_str_iff: "includes_str s pat \<longleftrightarrow> (\<exists>b a. s = b @ pat @ a)"
proof
  assume "includes_str s pat"
  then obtain b a where "first_match pat s = Some (b, a)"
    by (auto simp: includes_str_def)
  then show "\<exists>b a. s = b @ pat @ a" using first_match_Some by blast
next
  assume "\<exists>b a. s = b @ pat @ a"
  then show "includes_str s pat"
    unfolding includes_str_def using first_match_None by blast
qed

lemma first_match_first:
  assumes "s = b @ pat @ a"
    and "\<forall>b' a'. s = b' @ pat @ a' \<longrightarrow> length b \<le> length b'"
  shows "first_match pat s = Some (b, a)"
proof -
  from assms(1) first_match_None[of pat s b a]
  obtain b0 a0 where m: "first_match pat s = Some (b0, a0)"
    by (cases "first_match pat s") auto
  have s0: "s = b0 @ pat @ a0" using first_match_Some[OF m] .
  have "length b0 \<le> length b" using first_match_least[OF m assms(1)] .
  moreover have "length b \<le> length b0" using assms(2) s0 by blast
  ultimately have "length b0 = length b" by simp
  with s0 assms(1) have "b0 = b \<and> a0 = a" by auto
  with m show ?thesis by simp
qed

lemma getSubstitution_literal:
  "CHR ''$'' \<notin> set rep \<Longrightarrow> getSubstitution m b a rep = rep"
  by (induction m b a rep rule: getSubstitution.induct) auto

lemma replace_first_literal:
  assumes "CHR ''$'' \<notin> set rep"
    and "s = b @ pat @ a"
    and "\<forall>b' a'. s = b' @ pat @ a' \<longrightarrow> length b \<le> length b'"
  shows "replace s pat rep = b @ rep @ a"
  using first_match_first[OF assms(2,3)] getSubstitution_literal[OF assms(1)]
  by (simp add: replace_def)

text \<open>
  The import tag of the constructor has a dollar sign only if the file type has one: the
  tags of the two file types the controller decodes have none.
\<close>

lemma digit_not_dollar: "k < 10 \<Longrightarrow> char_of (48 + k :: nat) \<noteq> CHR ''$''"
proof
  assume k: "k < 10" and eq: "char_of (48 + k) = CHR ''$''"
  from eq have "of_char (char_of (48 + k)) = (of_char (CHR ''$'') :: nat)" by simp
  then have "(48 + k) mod 256 = (36 :: nat)" by simp
  with k show False by simp
qed

lemma toString_no_dollar: "CHR ''$'' \<notin> set (toString n)"
proof (induction n rule: toString.induct)
  case (1 n)
  show ?case
  proof (cases "n < 10")
    case True
    then show ?thesis using digit_not_dollar[of n] by (subst toString.simps) auto
  next
    case False
    have "n mod 10 < 10" by simp
    then have "char_of (48 + n mod 10) \<noteq> CHR ''$''" by (rule digit_not_dollar)
    with False 1 show ?thesis by (subst toString.simps) auto
  qed
qed

lemma slice_last2_subset: "set (slice_last2 s) \<subseteq> set s"
  by (simp add: slice_last2_def set_drop_subset)

lemma generateUniqueImportTag_no_dollar:
  assumes "CHR ''$'' \<notin> set ft"
  shows "CHR ''$'' \<notin> set (generateUniqueImportTag today ft)"
proof -
  have a: "CHR ''$'' \<notin> set (slice_last2 (''0'' @ toString k))" for k
    using slice_last2_subset[of "''0'' @ toString k"] toString_no_dollar[of k] by auto
  show ?thesis
    using assms a toString_no_dollar
    by (simp add: generateUniqueImportTag_def Let_def)
qed

lemma constructor_tag_no_dollar:
  "CHR ''$'' \<notin> set (uniqueImportTag (constructor today opts ''kdbx''))"
  "CHR ''$'' \<notin> set (uniqueImportTag (constructor today opts ''csv''))"
  by (simp_all add: constructor_def generateUniqueImportTag_no_dollar)

text \<open>
  Claim C8. For every raw path and every import tag without a dollar sign
  (\<^verbatim>\<open>import-kdbx-...\<close> and \<^verbatim>\<open>import-csv-...\<close> are such tags), \<^verbatim>\<open>_getConsolidatedPath\<close>
  returns the root path \<^verbatim>\<open>/<importTag>\<close> for the empty path and for \<^verbatim>\<open>/\<close>; for a path that
  contains \<^verbatim>\<open>/Root/\<close> it returns the path with the first \<^verbatim>\<open>/Root/\<close> replaced by
  \<^verbatim>\<open>/<importTag>/\<close>; for every other path it returns \<^verbatim>\<open>/<importTag>/\<close> followed by the path.
  The first occurrence is the one with the shortest text before it.
\<close>

theorem getConsolidatedPath_cases:
  assumes "CHR ''$'' \<notin> set (uniqueImportTag c)"
  shows "(path = [] \<or> path = ''/'' \<longrightarrow>
            getConsolidatedPath c path = ''/'' @ uniqueImportTag c)
       \<and> (\<forall>before after.
            path = before @ ''/Root/'' @ after
            \<and> (\<forall>b' a'. path = b' @ ''/Root/'' @ a' \<longrightarrow> length before \<le> length b')
            \<longrightarrow> getConsolidatedPath c path = before @ ''/'' @ uniqueImportTag c @ ''/'' @ after)
       \<and> (path \<noteq> [] \<and> path \<noteq> ''/'' \<and> (\<nexists>before after. path = before @ ''/Root/'' @ after) \<longrightarrow>
            getConsolidatedPath c path = ''/'' @ uniqueImportTag c @ ''/'' @ path)"
proof (intro conjI allI impI)
  assume "path = [] \<or> path = ''/''"
  then show "getConsolidatedPath c path = ''/'' @ uniqueImportTag c"
    by (auto simp: getConsolidatedPath_def)
next
  fix before after
  assume h: "path = before @ ''/Root/'' @ after
     \<and> (\<forall>b' a'. path = b' @ ''/Root/'' @ a' \<longrightarrow> length before \<le> length b')"
  then have inc: "includes_str path ''/Root/''" using includes_str_iff by blast
  from h have ne: "path \<noteq> [] \<and> path \<noteq> ''/''" by (cases before) auto
  have d: "CHR ''$'' \<notin> set (''/'' @ uniqueImportTag c @ ''/'')" using assms by simp
  have "replace path ''/Root/'' (''/'' @ uniqueImportTag c @ ''/'')
          = before @ (''/'' @ uniqueImportTag c @ ''/'') @ after"
    using replace_first_literal[OF d] h by blast
  with inc ne show "getConsolidatedPath c path = before @ ''/'' @ uniqueImportTag c @ ''/'' @ after"
    by (simp add: getConsolidatedPath_def)
next
  assume h: "path \<noteq> [] \<and> path \<noteq> ''/'' \<and> (\<nexists>before after. path = before @ ''/Root/'' @ after)"
  then have "\<not> includes_str path ''/Root/''" using includes_str_iff by blast
  with h show "getConsolidatedPath c path = ''/'' @ uniqueImportTag c @ ''/'' @ path"
    by (simp add: getConsolidatedPath_def)
qed

lemma example_tag_no_dollar: "CHR ''$'' \<notin> set (uniqueImportTag example_controller)"
  unfolding example_controller_def by (rule constructor_tag_no_dollar)

theorem getConsolidatedPath_cases_witness:
  "CHR ''$'' \<notin> set (uniqueImportTag example_controller) \<and>
   getConsolidatedPath example_controller ''/Root/Work'' =
     ''/'' @ uniqueImportTag example_controller @ ''/Work''"
proof -
  note h = example_tag_no_dollar
  note root = getConsolidatedPath_cases[OF h, of "''/Root/Work''", THEN conjunct2,
      THEN conjunct1, rule_format, of "[]" "''Work''"]
  have "getConsolidatedPath example_controller ''/Root/Work'' =
          [] @ ''/'' @ uniqueImportTag example_controller @ ''/'' @ ''Work''"
    by (rule root) simp
  then show ?thesis using h by simp
qed

subsection \<open>The root in the list of folder paths\<close>

lemma getConsolidatedPath_root: "getConsolidatedPath c ''/'' = ''/'' @ uniqueImportTag c"
  by (simp add: getConsolidatedPath_def)

lemma foldersPaths_prepareFolders:
  "foldersPaths (items (prepareFolders c)) =
     (let paths = map (getConsolidatedPath c) (foldersPaths (items c));
          rootPath = ''/'' @ uniqueImportTag c
      in sort (if rootPath \<in> set paths then paths else rootPath # paths))"
  by (simp add: prepareFolders_def Let_def getConsolidatedPath_root)

lemma count_list_sort: "count_list (sort xs) x = count_list xs x"
proof -
  have "count (mset (sort xs)) x = count (mset xs) x" by simp
  then show ?thesis by (simp only: count_mset)
qed

lemma count_list_unshift_sort:
  "count_list (sort (if x \<in> set xs then xs else x # xs)) x = max 1 (count_list xs x)"
proof (cases "x \<in> set xs")
  case True
  then have "0 < count_list xs x" by (metis count_list_0_iff gr0I)
  with True show ?thesis by (simp only: count_list_sort if_True)
next
  case False
  then have "count_list xs x = 0" by (metis count_list_0_iff)
  with False show ?thesis by (simp only: count_list_sort if_False) simp
qed

text \<open>
  Claim C9, as the specification has it: after \<^verbatim>\<open>_prepareFolders\<close> the root path occurs in
  the list exactly once, also when several decoded paths consolidate to the root. It does
  not hold: the decoded paths \<^verbatim>\<open>""\<close> and \<^verbatim>\<open>"/"\<close> both become the root path, the root is
  then found in the list and not added, and nothing removes the second occurrence.
\<close>

theorem prepareFolders_root_twice:
  "count_list (foldersPaths (items (prepareFolders two_roots)))
     (''/'' @ uniqueImportTag two_roots) = 2"
  by code_simp

text \<open>
  Claim C9, amended: after \<^verbatim>\<open>_prepareFolders\<close> the root path occurs in the list at least
  once. It occurs \<open>max 1 k\<close> times, where \<open>k\<close> is the number of decoded paths that
  consolidate to the root: once when there is no such path or one, \<open>k\<close> times otherwise.
\<close>

theorem prepareFolders_root_count:
  "count_list (foldersPaths (items (prepareFolders c))) (''/'' @ uniqueImportTag c) =
     max 1 (count_list (map (getConsolidatedPath c) (foldersPaths (items c)))
              (''/'' @ uniqueImportTag c))"
  by (simp only: foldersPaths_prepareFolders Let_def count_list_unshift_sort)

subsection \<open>Parents sort before their children\<close>

lemma split_nonempty: "split sep s \<noteq> []"
  by (induction s) (auto split: list.splits)

lemma join_split: "join sep (split sep s) = s"
proof (induction s)
  case Nil
  then show ?case by simp
next
  case (Cons c cs)
  obtain w ws where w: "split sep cs = w # ws"
    using split_nonempty[of sep cs] by (cases "split sep cs") auto
  show ?case
  proof (cases "c = sep")
    case True
    with Cons w show ?thesis by simp
  next
    case False
    with Cons w show ?thesis by (cases ws) auto
  qed
qed

lemma join_snoc: "xs \<noteq> [] \<Longrightarrow> join sep (xs @ [y]) = join sep xs @ sep # y"
  by (induction sep xs rule: join.induct) auto

lemma folderParent_prefix:
  assumes "P = CHR ''/'' # rest" and "folderParent P \<noteq> []"
  shows "P = folderParent P @ ''/'' @ folderName_of P"
proof -
  let ?segs = "split (CHR ''/'') rest"
  have fs: "folderSplit P = ?segs"
    using assms(1) by (simp add: folderSplit_def strip_leading_slash_def)
  have ne: "butlast ?segs \<noteq> []"
    using assms(2) fs by (auto simp: folderParent_def Let_def split: if_splits)
  have par: "folderParent P = ''/'' @ join (CHR ''/'') (butlast ?segs)"
    using ne fs by (simp add: folderParent_def)
  have "?segs = butlast ?segs @ [last ?segs]"
    using split_nonempty by simp
  then have "join (CHR ''/'') ?segs = join (CHR ''/'') (butlast ?segs) @ CHR ''/'' # last ?segs"
    using join_snoc[OF ne] by metis
  then have "rest = join (CHR ''/'') (butlast ?segs) @ CHR ''/'' # last ?segs"
    by (simp add: join_split)
  then show ?thesis
    using assms(1) par fs by (simp add: folderName_of_def)
qed

lemma proper_prefix_less: "ys \<noteq> [] \<Longrightarrow> xs < xs @ (ys :: char list)"
  by (cases ys) (auto simp: list_less_def intro: lexord_append_rightI)

lemma folderParent_less:
  assumes "P = CHR ''/'' # rest" and "folderParent P \<noteq> []"
  shows "folderParent P < P"
proof -
  have "folderParent P < folderParent P @ (''/'' @ folderName_of P)"
    by (rule proper_prefix_less) simp
  then show ?thesis using folderParent_prefix[OF assms] by simp
qed

text \<open>
  Claim C7. In the sorted list of folder paths that \<^verbatim>\<open>_prepareFolders\<close> leaves, every path
  that starts with a slash, as the paths \<^verbatim>\<open>/<importTag>/segment/.../segment\<close> do, comes
  strictly after its parent path (the path \<^verbatim>\<open>saveFolder\<close> looks up in the registry): the
  parent is smaller in the lexicographic order, and its position in the list is smaller.
\<close>

theorem parent_sorts_before_child:
  assumes "P = CHR ''/'' # rest"
    and "folderParent P \<noteq> []"
    and "i < length (foldersPaths (items (prepareFolders c)))"
    and "j < length (foldersPaths (items (prepareFolders c)))"
    and "foldersPaths (items (prepareFolders c)) ! i = folderParent P"
    and "foldersPaths (items (prepareFolders c)) ! j = P"
  shows "folderParent P < P \<and> i < j"
proof -
  let ?fp = "foldersPaths (items (prepareFolders c))"
  have less: "folderParent P < P" using folderParent_less[OF assms(1,2)] .
  have srt: "sorted ?fp" by (simp add: foldersPaths_prepareFolders Let_def)
  have "i < j"
  proof (rule ccontr)
    assume "\<not> i < j"
    then have "j \<le> i" by simp
    then have "?fp ! j \<le> ?fp ! i" using srt assms(3) by (simp add: sorted_iff_nth_mono)
    with assms(5,6) less show False by simp
  qed
  with less show ?thesis by simp
qed

theorem parent_sorts_before_child_witness:
  "foldersPaths (items (prepareFolders example_tree)) ! 1 =
     folderParent ''/import-kdbx-20240101953/Work/Sub'' \<and>
   foldersPaths (items (prepareFolders example_tree)) ! 2 = ''/import-kdbx-20240101953/Work/Sub'' \<and>
   folderParent ''/import-kdbx-20240101953/Work/Sub'' < ''/import-kdbx-20240101953/Work/Sub'' \<and>
   (1 :: nat) < 2"
proof -
  let ?P = "''/import-kdbx-20240101953/Work/Sub''"
  let ?fp = "foldersPaths (items (prepareFolders example_tree))"
  have a: "?P = CHR ''/'' # ''import-kdbx-20240101953/Work/Sub''" by simp
  have b: "folderParent ?P \<noteq> []" by code_simp
  have c: "1 < length ?fp" by code_simp
  have d: "2 < length ?fp" by code_simp
  have e: "?fp ! 1 = folderParent ?P" by code_simp
  have f: "?fp ! 2 = ?P" by code_simp
  from parent_sorts_before_child[OF a b c d e f] e f show ?thesis by simp
qed

subsection \<open>The import tag\<close>

text \<open>
  Claim C10 says that the tag ends in fourteen digits, \<^verbatim>\<open>YYYYMMDDHHMMSS\<close>, and the comment
  of \<^verbatim>\<open>_generateUniqueImportTag\<close> says \<^verbatim>\<open>yyyymmddhhiiss\<close>. The code pads the month and the
  day with a zero and does not pad the hours, the minutes and the seconds: on
  2024-01-01 at 09:05:03 the tag of a \<^verbatim>\<open>csv\<close> import ends in the eleven digits
  \<^verbatim>\<open>20240101953\<close>.
\<close>

theorem generateUniqueImportTag_unpadded_time:
  "generateUniqueImportTag example_date ''csv'' = ''import-csv-20240101953''"
  by code_simp

section \<open>Batches of promises\<close>

subsection \<open>The order of settlement\<close>

lemma settle_order_step:
  "settle_order (k # choices) (x # xs) =
     (x # xs) ! (k mod length (x # xs)) #
     settle_order choices (take (k mod length (x # xs)) (x # xs) @
                           drop (Suc (k mod length (x # xs))) (x # xs))"
  by (simp only: settle_order.simps Let_def)

lemma mset_settle_order: "mset (settle_order ks xs) = mset xs"
proof (induction ks xs rule: settle_order.induct)
  case (3 k choices x xs)
  let ?ys = "x # xs"
  let ?n = "k mod length ?ys"
  have n: "?n < length ?ys" by simp
  have split: "?ys = take ?n ?ys @ ?ys ! ?n # drop (Suc ?n) ?ys"
    using id_take_nth_drop[OF n] .
  have "mset ?ys = mset (take ?n ?ys @ ?ys ! ?n # drop (Suc ?n) ?ys)"
    using split by (rule arg_cong)
  also have "\<dots> = add_mset (?ys ! ?n) (mset (take ?n ?ys @ drop (Suc ?n) ?ys))"
    by (simp only: mset_append mset.simps union_mset_add_mset_right)
  finally have m: "mset ?ys = add_mset (?ys ! ?n) (mset (take ?n ?ys @ drop (Suc ?n) ?ys))" .
  have "mset (settle_order (k # choices) ?ys) =
          add_mset (?ys ! ?n) (mset (settle_order choices (take ?n ?ys @ drop (Suc ?n) ?ys)))"
    by (simp only: settle_order_step mset.simps)
  also have "\<dots> = add_mset (?ys ! ?n) (mset (take ?n ?ys @ drop (Suc ?n) ?ys))"
    by (simp only: 3[OF refl])
  finally show ?case using m by simp
qed simp_all

lemma settle_order_map: "settle_order ks (map f xs) = map f (settle_order ks xs)"
proof (induction ks xs rule: settle_order.induct)
  case (3 k choices x xs)
  let ?ys = "x # xs"
  let ?n = "k mod length ?ys"
  have n: "?n < length ?ys" by simp
  have a: "map f ?ys ! ?n = f (?ys ! ?n)" using n by (rule nth_map)
  have b: "take ?n (map f ?ys) @ drop (Suc ?n) (map f ?ys) = map f (take ?n ?ys @ drop (Suc ?n) ?ys)"
    by (simp only: take_map drop_map map_append)
  have m: "map f ?ys = f x # map f xs" by simp
  have l: "length (f x # map f xs) = length ?ys" by simp
  have "settle_order (k # choices) (map f ?ys) =
          map f ?ys ! ?n # settle_order choices (take ?n (map f ?ys) @ drop (Suc ?n) (map f ?ys))"
    unfolding m settle_order_step l ..
  also have "\<dots> = f (?ys ! ?n) # map f (settle_order choices (take ?n ?ys @ drop (Suc ?n) ?ys))"
    by (simp only: a b 3[OF refl])
  also have "\<dots> = map f (settle_order (k # choices) ?ys)"
    by (simp only: settle_order_step list.map)
  finally show ?case .
qed simp_all


subsection \<open>Settlements and the two lists\<close>

lemma created_of_append: "created_of (tr @ tr') = created_of tr @ created_of tr'"
  by (induction tr rule: created_of.induct) simp_all

lemma errors_of_append: "errors_of (tr @ tr') = errors_of tr @ errors_of tr'"
  by (induction tr rule: errors_of.induct) simp_all

lemma length_created_errors_of: "length (created_of tr) + length (errors_of tr) = length tr"
  by (induction tr rule: created_of.induct) simp_all

lemma errors_of_mem:
  "(x, Inl e) \<in> set tr \<Longrightarrow> \<lparr>error = header_message e, resource = x\<rparr> \<in> set (errors_of tr)"
  by (induction tr rule: errors_of.induct) auto

lemma created_of_mem: "(x, Inr v) \<in> set tr \<Longrightarrow> v \<in> set (created_of tr)"
  by (induction tr rule: created_of.induct) auto

lemma errors_of_resource:
  "er \<in> set (errors_of tr) \<Longrightarrow> \<exists>e. (resource er, Inl e) \<in> set tr"
  by (induction tr rule: errors_of.induct) auto

lemma outcome_simps [simp]:
  "outcome (Inl a) = Inl (Structured a)" "outcome (Inr v) = Inr v"
  by (simp_all add: outcome_def)

lemma outcome_inject: "outcome a = outcome b \<Longrightarrow> a = b"
  by (cases a; cases b) simp_all

lemma outcome_structured: "outcome out \<noteq> Inl (Unstructured y)"
  by (cases out) simp_all

lemma structured_outcome:
  assumes "\<And>y. out' \<noteq> Inl (Unstructured y)"
  shows "\<exists>out. out' = outcome out"
proof (cases out')
  case (Inl e)
  with assms obtain a where "e = Structured a" by (cases e) auto
  with Inl have "out' = outcome (Inl a)" by simp
  then show ?thesis ..
next
  case (Inr v)
  then have "out' = outcome (Inr v)" by simp
  then show ?thesis ..
qed

lemma mset_errors_of:
  "mset (errors_of tr) =
     image_mset (\<lambda>t. \<lparr>error = header_message (projl (snd t)), resource = fst t\<rparr>)
       (filter_mset (\<lambda>t. isl (snd t)) (mset tr))"
  by (induction tr rule: errors_of.induct) simp_all

lemma mset_created_of:
  "mset (created_of tr) = image_mset (\<lambda>t. projr (snd t)) (filter_mset (\<lambda>t. \<not> isl (snd t)) (mset tr))"
  by (induction tr rule: created_of.induct) simp_all

lemma settlements_determined:
  assumes "\<forall>x out. (x, out) \<in> set tr \<longrightarrow> out = w x"
    and "mset (map fst tr) = mset xs"
  shows "mset (errors_of tr) = mset (errors_of (map (\<lambda>x. (x, w x)) xs))"
    and "mset (created_of tr) = mset (created_of (map (\<lambda>x. (x, w x)) xs))"
proof -
  have "map (\<lambda>x. (x, w x)) (map fst tr) = tr"
    using assms(1) by (induction tr) auto
  then have "mset tr = image_mset (\<lambda>x. (x, w x)) (mset (map fst tr))"
    by (metis mset_map)
  then have eq: "mset tr = mset (map (\<lambda>x. (x, w x)) xs)"
    using assms(2) by simp
  show "mset (errors_of tr) = mset (errors_of (map (\<lambda>x. (x, w x)) xs))"
    by (simp only: mset_errors_of eq)
  show "mset (created_of tr) = mset (created_of (map (\<lambda>x. (x, w x)) xs))"
    by (simp only: mset_created_of eq)
qed

subsection \<open>One batch, and the batches in sequence\<close>

lemma item_promise_settle:
  "catch_promise (then_promise (on_controller p) onCreated) (onRejected x) (c, r) =
     (case p c of
        (Inl (Structured a), c') \<Rightarrow>
          (Inr (), item_done c',
           r\<lparr>errors := errors r @ [\<lparr>error = header_message a, resource = x\<rparr>]\<rparr>)
      | (Inl (Unstructured y), c') \<Rightarrow> (Inl (TypeError ''e.header is undefined''), item_done c', r)
      | (Inr v, c') \<Rightarrow> (Inr (), item_done c', r\<lparr>created := created r @ [v]\<rparr>))"
  by (simp add: catch_promise_def then_promise_def on_controller_def onCreated_def
        onRejected_def split: prod.splits sum.splits rejection.splits)

lemma map_calls_item_promise:
  assumes "P c" and "\<And>x s. P s \<Longrightarrow> P (snd (importFn x s))"
  shows "\<exists>tasks c'.
           map_calls (item_promise importFn) xs c =
             (map (\<lambda>(x, p). catch_promise (then_promise (on_controller p) onCreated)
                                (onRejected x)) tasks, c')
         \<and> map fst tasks = xs \<and> P c'
         \<and> (\<forall>x p. (x, p) \<in> set tasks \<longrightarrow> (\<exists>s0. P s0 \<and> p = fst (importFn x s0)))"
  using assms(1)
proof (induction xs arbitrary: c)
  case Nil
  show ?case using Nil by (intro exI[of _ "[]"] exI[of _ c]) simp
next
  case (Cons x xs)
  let ?d = "\<lambda>(x, p). catch_promise (then_promise (on_controller p) onCreated) (onRejected x)"
  obtain p c1 where call: "importFn x c = (p, c1)" by (cases "importFn x c")
  have "P c1" using assms(2)[OF Cons.prems, of x] call by simp
  from Cons.IH[OF this] obtain tasks c' where t:
    "map_calls (item_promise importFn) xs c1 = (map ?d tasks, c')"
    "map fst tasks = xs" "P c'"
    "\<forall>x p. (x, p) \<in> set tasks \<longrightarrow> (\<exists>s0. P s0 \<and> p = fst (importFn x s0))"
    by blast
  have p: "p = fst (importFn x c)" using call by simp
  have ip: "item_promise importFn x c = (?d (x, p), c1)"
    using call by (simp add: item_promise_def)
  have mc: "map_calls (item_promise importFn) (x # xs) c = (map ?d ((x, p) # tasks), c')"
    using ip t(1) by simp
  have fs: "map fst ((x, p) # tasks) = x # xs" using t(2) by simp
  have fa: "\<forall>y q. (y, q) \<in> set ((x, p) # tasks) \<longrightarrow> (\<exists>s0. P s0 \<and> q = fst (importFn y s0))"
    using t(4) p Cons.prems by auto
  show ?case
  proof (intro exI conjI)
    show "map_calls (item_promise importFn) (x # xs) c = (map ?d ((x, p) # tasks), c')"
      by (rule mc)
    show "map fst ((x, p) # tasks) = x # xs" by (rule fs)
    show "P c'" by (rule t(3))
    show "\<forall>y q. (y, q) \<in> set ((x, p) # tasks) \<longrightarrow> (\<exists>s0. P s0 \<and> q = fst (importFn y s0))"
      by (rule fa)
  qed
qed

text \<open>
  The promises of the items of a batch under \<^verbatim>\<open>Promise.all\<close>. Either none of them is
  rejected: then every promise of a worker has settled with a value or a structured
  error, and the two lists have grown by those of the settlements. Or the await throws a
  \<^verbatim>\<open>TypeError\<close>: then the promise of a worker was rejected with a value without header.
\<close>

lemma promise_all_item_promises:
  assumes idone: "\<And>s. Q s \<Longrightarrow> Q (item_done s)"
  shows "Q c \<Longrightarrow> \<forall>x p s. (x, p) \<in> set tasks \<longrightarrow> Q s \<longrightarrow> Q (snd (p s)) \<Longrightarrow>
     (\<exists>tr c'.
        promise_all (map (\<lambda>(x, p). catch_promise (then_promise (on_controller p) onCreated)
                                  (onRejected x)) tasks) (c, r) =
          (Inr (), c',
           r\<lparr>created := created r @ created_of tr, errors := errors r @ errors_of tr\<rparr>)
      \<and> map fst tr = map fst tasks \<and> Q c'
      \<and> (\<forall>x out. (x, out) \<in> set tr \<longrightarrow>
            (\<exists>p s. (x, p) \<in> set tasks \<and> fst (p s) = outcome out)))
   \<or> (\<exists>s'.
        promise_all (map (\<lambda>(x, p). catch_promise (then_promise (on_controller p) onCreated)
                                  (onRejected x)) tasks) (c, r) =
          (Inl (TypeError ''e.header is undefined''), s')
      \<and> (\<exists>x p s y. (x, p) \<in> set tasks \<and> fst (p s) = Inl (Unstructured y)))"
proof (induction tasks arbitrary: c r)
  case Nil
  have "promise_all (map (\<lambda>(x, p). catch_promise (then_promise (on_controller p) onCreated)
                                  (onRejected x)) []) (c, r) =
          (Inr (), c, r\<lparr>created := created r @ created_of [], errors := errors r @ errors_of []\<rparr>)
        \<and> map fst [] = map fst ([] :: ('a \<times> (controller, rejection, 'b) promise) list) \<and> Q c
        \<and> (\<forall>x out. (x, out) \<in> set [] \<longrightarrow>
              (\<exists>p s. (x, p) \<in> set ([] :: ('a \<times> (controller, rejection, 'b) promise) list)
                   \<and> fst (p s) = outcome out))"
    using Nil(1) by simp
  then show ?case by blast
next
  case (Cons t tasks)
  let ?d = "\<lambda>(x, p). catch_promise (then_promise (on_controller p) onCreated) (onRejected x)"
  obtain x p where t: "t = (x, p)" by (cases t)
  obtain out' c1 where pc: "p c = (out', c1)" by (cases "p c")
  have out': "fst (p c) = out'" using pc by simp
  have "Q c1" using Cons.prems(2) Cons.prems(1) t pc by fastforce
  then have Q1: "Q (item_done c1)" by (rule idone)
  have pres: "\<forall>x p s. (x, p) \<in> set tasks \<longrightarrow> Q s \<longrightarrow> Q (snd (p s))"
    using Cons.prems(2) by simp
  show ?case
  proof (cases "\<exists>y. out' = Inl (Unstructured y)")
    case True
    then obtain y where y: "out' = Inl (Unstructured y)" ..
    have step: "?d (x, p) (c, r) = (Inl (TypeError ''e.header is undefined''), item_done c1, r)"
      using pc y by (simp add: item_promise_settle)
    have pa: "promise_all (map ?d (t # tasks)) (c, r) =
                (Inl (TypeError ''e.header is undefined''), item_done c1, r)"
      using step t by simp
    have "(x, p) \<in> set (t # tasks) \<and> fst (p c) = Inl (Unstructured y)"
      using t out' y by simp
    then have "\<exists>x p s y. (x, p) \<in> set (t # tasks) \<and> fst (p s) = Inl (Unstructured y)"
      by blast
    with pa show ?thesis by blast
  next
    case False
    then have "\<And>y. out' \<noteq> Inl (Unstructured y)" by blast
    from structured_outcome[OF this] obtain out where out: "out' = outcome out" ..
    define r1 where "r1 = (case out of
         Inl a \<Rightarrow> r\<lparr>errors := errors r @ [\<lparr>error = header_message a, resource = x\<rparr>]\<rparr>
       | Inr v \<Rightarrow> r\<lparr>created := created r @ [v]\<rparr>)"
    have step: "?d (x, p) (c, r) = (Inr (), item_done c1, r1)"
      using pc out by (cases out) (simp_all add: item_promise_settle r1_def)
    have pa: "promise_all (map ?d (t # tasks)) (c, r) =
                promise_all (map ?d tasks) (item_done c1, r1)"
      using step t by simp
    from Cons.IH[OF Q1 pres, of r1]
    show ?thesis
    proof
      assume "\<exists>tr c'.
        promise_all (map ?d tasks) (item_done c1, r1) =
          (Inr (), c',
           r1\<lparr>created := created r1 @ created_of tr, errors := errors r1 @ errors_of tr\<rparr>)
      \<and> map fst tr = map fst tasks \<and> Q c'
      \<and> (\<forall>x out. (x, out) \<in> set tr \<longrightarrow>
            (\<exists>p s. (x, p) \<in> set tasks \<and> fst (p s) = outcome out))"
      then obtain tr c' where ih:
        "promise_all (map ?d tasks) (item_done c1, r1) =
          (Inr (), c',
           r1\<lparr>created := created r1 @ created_of tr, errors := errors r1 @ errors_of tr\<rparr>)"
        "map fst tr = map fst tasks" "Q c'"
        "\<forall>x out. (x, out) \<in> set tr \<longrightarrow>
            (\<exists>p s. (x, p) \<in> set tasks \<and> fst (p s) = outcome out)"
        by blast
      have r1: "r1\<lparr>created := created r1 @ created_of tr, errors := errors r1 @ errors_of tr\<rparr> =
                r\<lparr>created := created r @ created_of ((x, out) # tr),
                  errors := errors r @ errors_of ((x, out) # tr)\<rparr>"
        by (cases out) (simp_all add: r1_def)
      have sa: "promise_all (map ?d (t # tasks)) (c, r) =
                  (Inr (), c',
                   r\<lparr>created := created r @ created_of ((x, out) # tr),
                     errors := errors r @ errors_of ((x, out) # tr)\<rparr>)"
        using pa ih(1) r1 by simp
      have fs: "map fst ((x, out) # tr) = map fst (t # tasks)" using ih(2) t by simp
      have fa: "\<forall>y o'. (y, o') \<in> set ((x, out) # tr) \<longrightarrow>
                  (\<exists>p s. (y, p) \<in> set (t # tasks) \<and> fst (p s) = outcome o')"
        using ih(4) t out out' by fastforce
      have "\<exists>tr c'.
        promise_all (map ?d (t # tasks)) (c, r) =
          (Inr (), c',
           r\<lparr>created := created r @ created_of tr, errors := errors r @ errors_of tr\<rparr>)
        \<and> map fst tr = map fst (t # tasks) \<and> Q c'
        \<and> (\<forall>x out. (x, out) \<in> set tr \<longrightarrow>
              (\<exists>p s. (x, p) \<in> set (t # tasks) \<and> fst (p s) = outcome out))"
      proof (intro exI conjI)
        show "promise_all (map ?d (t # tasks)) (c, r) =
                  (Inr (), c',
                   r\<lparr>created := created r @ created_of ((x, out) # tr),
                     errors := errors r @ errors_of ((x, out) # tr)\<rparr>)" by (rule sa)
        show "map fst ((x, out) # tr) = map fst (t # tasks)" by (rule fs)
        show "Q c'" by (rule ih(3))
        show "\<forall>y o'. (y, o') \<in> set ((x, out) # tr) \<longrightarrow>
                  (\<exists>p s. (y, p) \<in> set (t # tasks) \<and> fst (p s) = outcome o')" by (rule fa)
      qed
      then show ?thesis by (rule disjI1)
    next
      assume "\<exists>s'.
        promise_all (map ?d tasks) (item_done c1, r1) =
          (Inl (TypeError ''e.header is undefined''), s')
      \<and> (\<exists>x p s y. (x, p) \<in> set tasks \<and> fst (p s) = Inl (Unstructured y))"
      then obtain s' x' p' s y where ih:
        "promise_all (map ?d tasks) (item_done c1, r1) =
          (Inl (TypeError ''e.header is undefined''), s')"
        "(x', p') \<in> set tasks" "fst (p' s) = Inl (Unstructured y)"
        by blast
      have a: "promise_all (map ?d (t # tasks)) (c, r) =
                 (Inl (TypeError ''e.header is undefined''), s')"
        using pa ih(1) by simp
      have "(x', p') \<in> set (t # tasks)" using ih(2) by simp
      with ih(3) have "\<exists>x p s y. (x, p) \<in> set (t # tasks) \<and> fst (p s) = Inl (Unstructured y)"
        by blast
      with a show ?thesis by blast
    qed
  qed
qed


text \<open>
  A batch. Either \<^verbatim>\<open>importBatch\<close> returns its two lists: they are those of a sequence of
  settlements, one for each item of the batch, the outcome of each being the outcome of
  the promise the worker returned for the item. Or it throws the \<^verbatim>\<open>TypeError\<close> of the
  handler, and a promise of the worker was rejected with a value without header. \<open>P\<close> is
  any property of the controller that the worker's calls keep, and \<open>Q\<close> any property that
  also the settlements keep.
\<close>

lemma importBatch_settlements:
  assumes "P (c\<lparr>currentBatchNumber := currentBatchNumber c + 1\<rparr>)"
    and "\<And>x s. P s \<Longrightarrow> P (snd (importFn x s))"
    and "Q (c\<lparr>currentBatchNumber := currentBatchNumber c + 1\<rparr>)"
    and "\<And>x s. Q s \<Longrightarrow> Q (snd (importFn x s))"
    and "\<And>x s0 s. Q s \<Longrightarrow> Q (snd (fst (importFn x s0) s))"
    and "\<And>s. Q s \<Longrightarrow> Q (item_done s)"
  shows "(\<exists>r c' tr.
           importBatch env batch n importFn c = (Inr r, c')
         \<and> created r = created_of tr \<and> errors r = errors_of tr
         \<and> mset (map fst tr) = mset batch \<and> Q c'
         \<and> (\<forall>x out. (x, out) \<in> set tr \<longrightarrow>
               (\<exists>s0 s. P s0 \<and> Q s0 \<and> fst (fst (importFn x s0) s) = outcome out)))
       \<or> (\<exists>c'. importBatch env batch n importFn c = (Inl (TypeError ''e.header is undefined''), c')
           \<and> (\<exists>x s0 s y. fst (fst (importFn x s0) s) = Inl (Unstructured y)))"
proof -
  let ?c1 = "c\<lparr>currentBatchNumber := currentBatchNumber c + 1\<rparr>"
  let ?d = "\<lambda>(x, p). catch_promise (then_promise (on_controller p) onCreated) (onRejected x)"
  let ?ks = "settles env (currentBatchNumber ?c1)"
  have PQ: "P ?c1 \<and> Q ?c1" using assms(1,3) by simp
  have PQcall: "\<And>x s. P s \<and> Q s \<Longrightarrow> P (snd (importFn x s)) \<and> Q (snd (importFn x s))"
    using assms(2,4) by simp
  from map_calls_item_promise[of "\<lambda>s. P s \<and> Q s" ?c1 importFn batch, OF PQ PQcall]
  obtain tasks c2 where tasks:
    "map_calls (item_promise importFn) batch ?c1 = (map ?d tasks, c2)"
    "map fst tasks = batch" "P c2 \<and> Q c2"
    "\<forall>x p. (x, p) \<in> set tasks \<longrightarrow> (\<exists>s0. (P s0 \<and> Q s0) \<and> p = fst (importFn x s0))"
    by blast
  let ?tasks' = "settle_order ?ks tasks"
  have ord: "settle_order ?ks (map ?d tasks) = map ?d ?tasks'"
    by (rule settle_order_map)
  have ms: "mset ?tasks' = mset tasks" by (rule mset_settle_order)
  then have st: "set ?tasks' = set tasks" by (rule mset_eq_setD)
  have Q2: "Q c2" using tasks(3) by simp
  have Qsettle: "\<forall>x p s. (x, p) \<in> set ?tasks' \<longrightarrow> Q s \<longrightarrow> Q (snd (p s))"
  proof (intro allI impI)
    fix x p s assume "(x, p) \<in> set ?tasks'" and q: "Q s"
    with st have "(x, p) \<in> set tasks" by simp
    with tasks(4) obtain s0 where "p = fst (importFn x s0)" by blast
    with assms(5)[OF q, of x s0] show "Q (snd (p s))" by simp
  qed
  have cases: "(\<exists>tr c3.
      promise_all (map ?d ?tasks') (c2, \<lparr>created = [], errors = []\<rparr>) =
        (Inr (), c3, \<lparr>created = created_of tr, errors = errors_of tr\<rparr>)
    \<and> map fst tr = map fst ?tasks' \<and> Q c3
    \<and> (\<forall>x out. (x, out) \<in> set tr \<longrightarrow>
          (\<exists>p s. (x, p) \<in> set ?tasks' \<and> fst (p s) = outcome out)))
   \<or> (\<exists>s'.
      promise_all (map ?d ?tasks') (c2, \<lparr>created = [], errors = []\<rparr>) =
        (Inl (TypeError ''e.header is undefined''), s')
    \<and> (\<exists>x p s y. (x, p) \<in> set ?tasks' \<and> fst (p s) = Inl (Unstructured y)))"
    using promise_all_item_promises[where Q = Q and c = c2 and tasks = ?tasks'
      and r = "\<lparr>created = [], errors = []\<rparr>", OF assms(6) Q2 Qsettle]
    by simp
  then show ?thesis
  proof
    assume "\<exists>tr c3.
      promise_all (map ?d ?tasks') (c2, \<lparr>created = [], errors = []\<rparr>) =
        (Inr (), c3, \<lparr>created = created_of tr, errors = errors_of tr\<rparr>)
    \<and> map fst tr = map fst ?tasks' \<and> Q c3
    \<and> (\<forall>x out. (x, out) \<in> set tr \<longrightarrow>
          (\<exists>p s. (x, p) \<in> set ?tasks' \<and> fst (p s) = outcome out))"
    then obtain tr c3 where tr:
      "promise_all (map ?d ?tasks') (c2, \<lparr>created = [], errors = []\<rparr>) =
         (Inr (), c3, \<lparr>created = created_of tr, errors = errors_of tr\<rparr>)"
      "map fst tr = map fst ?tasks'" "Q c3"
      "\<forall>x out. (x, out) \<in> set tr \<longrightarrow>
          (\<exists>p s. (x, p) \<in> set ?tasks' \<and> fst (p s) = outcome out)"
      by blast
    have res: "importBatch env batch n importFn c =
                 (Inr \<lparr>created = created_of tr, errors = errors_of tr\<rparr>, c3)"
      using tasks(1) ord tr(1) by (simp add: importBatch_def Let_def)
    have "mset (map fst tr) = image_mset fst (mset ?tasks')"
      using tr(2) by simp
    also have "\<dots> = mset (map fst tasks)" using ms by simp
    finally have items: "mset (map fst tr) = mset batch" using tasks(2) by simp
    have faithful: "\<forall>x out. (x, out) \<in> set tr \<longrightarrow>
                      (\<exists>s0 s. P s0 \<and> Q s0 \<and> fst (fst (importFn x s0) s) = outcome out)"
    proof (intro allI impI)
      fix x out assume "(x, out) \<in> set tr"
      with tr(4) obtain p s where ps: "(x, p) \<in> set ?tasks'" "fst (p s) = outcome out" by blast
      from ps(1) st have "(x, p) \<in> set tasks" by simp
      with tasks(4) obtain s0 where "P s0" "Q s0" "p = fst (importFn x s0)" by blast
      with ps(2) show "\<exists>s0 s. P s0 \<and> Q s0 \<and> fst (fst (importFn x s0) s) = outcome out" by blast
    qed
    have "\<exists>r c' tr.
           importBatch env batch n importFn c = (Inr r, c')
         \<and> created r = created_of tr \<and> errors r = errors_of tr
         \<and> mset (map fst tr) = mset batch \<and> Q c'
         \<and> (\<forall>x out. (x, out) \<in> set tr \<longrightarrow>
               (\<exists>s0 s. P s0 \<and> Q s0 \<and> fst (fst (importFn x s0) s) = outcome out))"
    proof (intro exI conjI)
      show "importBatch env batch n importFn c =
                 (Inr \<lparr>created = created_of tr, errors = errors_of tr\<rparr>, c3)" by (rule res)
      show "created \<lparr>created = created_of tr, errors = errors_of tr\<rparr> = created_of tr" by simp
      show "errors \<lparr>created = created_of tr, errors = errors_of tr\<rparr> = errors_of tr" by simp
      show "mset (map fst tr) = mset batch" by (rule items)
      show "Q c3" by (rule tr(3))
      show "\<forall>x out. (x, out) \<in> set tr \<longrightarrow>
              (\<exists>s0 s. P s0 \<and> Q s0 \<and> fst (fst (importFn x s0) s) = outcome out)"
        by (rule faithful)
    qed
    then show ?thesis by (rule disjI1)
  next
    assume "\<exists>s'.
      promise_all (map ?d ?tasks') (c2, \<lparr>created = [], errors = []\<rparr>) =
        (Inl (TypeError ''e.header is undefined''), s')
    \<and> (\<exists>x p s y. (x, p) \<in> set ?tasks' \<and> fst (p s) = Inl (Unstructured y))"
    then obtain s' x p s y where ab:
      "promise_all (map ?d ?tasks') (c2, \<lparr>created = [], errors = []\<rparr>) =
        (Inl (TypeError ''e.header is undefined''), s')"
      "(x, p) \<in> set ?tasks'" "fst (p s) = Inl (Unstructured y)"
      by blast
    obtain c3 r3 where s': "s' = (c3, r3)" by (cases s')
    have res: "importBatch env batch n importFn c = (Inl (TypeError ''e.header is undefined''), c3)"
      using tasks(1) ord ab(1) s' by (simp add: importBatch_def Let_def)
    from ab(2) st have "(x, p) \<in> set tasks" by simp
    with tasks(4) obtain s0 where "p = fst (importFn x s0)" by blast
    with ab(3) have "\<exists>x s0 s y. fst (fst (importFn x s0) s) = Inl (Unstructured y)" by blast
    with res show ?thesis by blast
  qed
qed

lemma processBatches_loop_settlements:
  assumes "Q c"
    and "\<And>s n. Q s \<Longrightarrow> Q (s\<lparr>currentBatchNumber := n\<rparr>)"
    and "\<And>x s. Q s \<Longrightarrow> Q (snd (importFn x s))"
    and "\<And>x s0 s. Q s \<Longrightarrow> Q (snd (fst (importFn x s0) s))"
    and "\<And>s. Q s \<Longrightarrow> Q (item_done s)"
  shows "(\<exists>r c' tr.
     processBatches_loop env batches importFn n acc c = (Inr r, c')
   \<and> created r = created acc @ created_of tr \<and> errors r = errors acc @ errors_of tr
   \<and> mset (map fst tr) = mset (concat batches)
   \<and> (\<forall>x out. (x, out) \<in> set tr \<longrightarrow>
         (\<exists>s0 s. Q s0 \<and> fst (fst (importFn x s0) s) = outcome out)))
   \<or> (\<exists>c'. processBatches_loop env batches importFn n acc c =
             (Inl (TypeError ''e.header is undefined''), c')
       \<and> (\<exists>x s0 s y. fst (fst (importFn x s0) s) = Inl (Unstructured y)))"
  using assms(1)
proof (induction batches arbitrary: n acc c)
  case Nil
  have "processBatches_loop env [] importFn n acc c = (Inr acc, c)
      \<and> created acc = created acc @ created_of [] \<and> errors acc = errors acc @ errors_of []
      \<and> mset (map fst ([] :: ('a \<times> (api_error + 'b)) list)) = mset (concat [])
      \<and> (\<forall>x out. (x, out) \<in> set ([] :: ('a \<times> (api_error + 'b)) list) \<longrightarrow>
            (\<exists>s0 s. Q s0 \<and> fst (fst (importFn x s0) s) = outcome out))"
    by simp
  then show ?case by blast
next
  case (Cons batch batches)
  have Q1: "Q (c\<lparr>currentBatchNumber := currentBatchNumber c + 1\<rparr>)"
    using assms(2)[OF Cons.prems] .
  from importBatch_settlements[of "\<lambda>_. True" c importFn Q env batch n, OF _ _ Q1 assms(3,4,5)]
  have "(\<exists>r1 c1 tr1.
           importBatch env batch n importFn c = (Inr r1, c1)
         \<and> created r1 = created_of tr1 \<and> errors r1 = errors_of tr1
         \<and> mset (map fst tr1) = mset batch \<and> Q c1
         \<and> (\<forall>x out. (x, out) \<in> set tr1 \<longrightarrow>
               (\<exists>s0 s. Q s0 \<and> fst (fst (importFn x s0) s) = outcome out)))
       \<or> (\<exists>c'. importBatch env batch n importFn c = (Inl (TypeError ''e.header is undefined''), c')
           \<and> (\<exists>x s0 s y. fst (fst (importFn x s0) s) = Inl (Unstructured y)))"
    by simp
  then show ?case
  proof
    assume "\<exists>r1 c1 tr1.
           importBatch env batch n importFn c = (Inr r1, c1)
         \<and> created r1 = created_of tr1 \<and> errors r1 = errors_of tr1
         \<and> mset (map fst tr1) = mset batch \<and> Q c1
         \<and> (\<forall>x out. (x, out) \<in> set tr1 \<longrightarrow>
               (\<exists>s0 s. Q s0 \<and> fst (fst (importFn x s0) s) = outcome out))"
    then obtain r1 c1 tr1 where b:
      "importBatch env batch n importFn c = (Inr r1, c1)"
      "created r1 = created_of tr1" "errors r1 = errors_of tr1"
      "mset (map fst tr1) = mset batch" "Q c1"
      "\<forall>x out. (x, out) \<in> set tr1 \<longrightarrow>
         (\<exists>s0 s. Q s0 \<and> fst (fst (importFn x s0) s) = outcome out)"
      by blast
    let ?acc = "\<lparr>created = created acc @ created r1, errors = errors acc @ errors r1\<rparr>"
    have step: "processBatches_loop env (batch # batches) importFn n acc c =
                  processBatches_loop env batches importFn (n + 1) ?acc c1"
      using b(1) by simp
    from Cons.IH[OF b(5), of "n + 1" ?acc]
    show ?thesis
    proof
      assume "\<exists>r c' tr.
         processBatches_loop env batches importFn (n + 1) ?acc c1 = (Inr r, c')
       \<and> created r = created ?acc @ created_of tr \<and> errors r = errors ?acc @ errors_of tr
       \<and> mset (map fst tr) = mset (concat batches)
       \<and> (\<forall>x out. (x, out) \<in> set tr \<longrightarrow>
             (\<exists>s0 s. Q s0 \<and> fst (fst (importFn x s0) s) = outcome out))"
      then obtain r c' tr2 where ih:
        "processBatches_loop env batches importFn (n + 1) ?acc c1 = (Inr r, c')"
        "created r = created ?acc @ created_of tr2" "errors r = errors ?acc @ errors_of tr2"
        "mset (map fst tr2) = mset (concat batches)"
        "\<forall>x out. (x, out) \<in> set tr2 \<longrightarrow>
           (\<exists>s0 s. Q s0 \<and> fst (fst (importFn x s0) s) = outcome out)"
        by blast
      have "\<exists>r c' tr.
         processBatches_loop env (batch # batches) importFn n acc c = (Inr r, c')
       \<and> created r = created acc @ created_of tr \<and> errors r = errors acc @ errors_of tr
       \<and> mset (map fst tr) = mset (concat (batch # batches))
       \<and> (\<forall>x out. (x, out) \<in> set tr \<longrightarrow>
             (\<exists>s0 s. Q s0 \<and> fst (fst (importFn x s0) s) = outcome out))"
      proof (intro exI conjI)
        show "processBatches_loop env (batch # batches) importFn n acc c = (Inr r, c')"
          using step ih(1) by simp
        show "created r = created acc @ created_of (tr1 @ tr2)"
          using b(2) ih(2) by (simp add: created_of_append)
        show "errors r = errors acc @ errors_of (tr1 @ tr2)"
          using b(3) ih(3) by (simp add: errors_of_append)
        show "mset (map fst (tr1 @ tr2)) = mset (concat (batch # batches))"
          using b(4) ih(4) by simp
        show "\<forall>x out. (x, out) \<in> set (tr1 @ tr2) \<longrightarrow>
                (\<exists>s0 s. Q s0 \<and> fst (fst (importFn x s0) s) = outcome out)"
          using b(6) ih(5) by auto
      qed
      then show ?thesis by (rule disjI1)
    next
      assume "\<exists>c'. processBatches_loop env batches importFn (n + 1) ?acc c1 =
                 (Inl (TypeError ''e.header is undefined''), c')
           \<and> (\<exists>x s0 s y. fst (fst (importFn x s0) s) = Inl (Unstructured y))"
      with step show ?thesis by simp
    qed
  next
    assume "\<exists>c'. importBatch env batch n importFn c = (Inl (TypeError ''e.header is undefined''), c')
           \<and> (\<exists>x s0 s y. fst (fst (importFn x s0) s) = Inl (Unstructured y))"
    then obtain c' where ab:
      "importBatch env batch n importFn c = (Inl (TypeError ''e.header is undefined''), c')"
      "\<exists>x s0 s y. fst (fst (importFn x s0) s) = Inl (Unstructured y)"
      by blast
    have "processBatches_loop env (batch # batches) importFn n acc c =
            (Inl (TypeError ''e.header is undefined''), c')"
      using ab(1) by simp
    with ab(2) show ?thesis by blast
  qed
qed

lemma processBatches_settlements_inv:
  assumes "Q c"
    and "\<And>s n. Q s \<Longrightarrow> Q (s\<lparr>currentBatchNumber := n\<rparr>)"
    and "\<And>x s. Q s \<Longrightarrow> Q (snd (importFn x s))"
    and "\<And>x s0 s. Q s \<Longrightarrow> Q (snd (fst (importFn x s0) s))"
    and "\<And>s. Q s \<Longrightarrow> Q (item_done s)"
  shows "(\<exists>r c' tr.
     processBatches env batches importFn c = (Inr r, c')
   \<and> created r = created_of tr \<and> errors r = errors_of tr
   \<and> mset (map fst tr) = mset (concat batches)
   \<and> (\<forall>x out. (x, out) \<in> set tr \<longrightarrow>
         (\<exists>s0 s. Q s0 \<and> fst (fst (importFn x s0) s) = outcome out)))
   \<or> (\<exists>c'. processBatches env batches importFn c = (Inl (TypeError ''e.header is undefined''), c')
       \<and> (\<exists>x s0 s y. fst (fst (importFn x s0) s) = Inl (Unstructured y)))"
  using processBatches_loop_settlements[of Q c importFn env batches 0
      "\<lparr>created = [], errors = []\<rparr>", OF assms]
  by (simp add: processBatches_def)

text \<open>
  The batches in sequence: \<^verbatim>\<open>processBatches\<close> returns the lists of a sequence of
  settlements that has every item of every batch once, or it throws the \<^verbatim>\<open>TypeError\<close> of
  the handler because a promise of the worker was rejected with a value without header.
\<close>

lemma processBatches_settlements:
  "(\<exists>r c' tr.
     processBatches env batches importFn c = (Inr r, c')
   \<and> created r = created_of tr \<and> errors r = errors_of tr
   \<and> mset (map fst tr) = mset (concat batches)
   \<and> (\<forall>x out. (x, out) \<in> set tr \<longrightarrow> (\<exists>s0 s. fst (fst (importFn x s0) s) = outcome out)))
   \<or> (\<exists>c'. processBatches env batches importFn c = (Inl (TypeError ''e.header is undefined''), c')
       \<and> (\<exists>x s0 s y. fst (fst (importFn x s0) s) = Inl (Unstructured y)))"
  using processBatches_settlements_inv[of "\<lambda>_. True" c importFn env batches] by simp

lemma processBatches_structured:
  assumes "\<forall>x s0 s y. fst (fst (importFn x s0) s) \<noteq> Inl (Unstructured y)"
  shows "\<exists>r c' tr.
     processBatches env batches importFn c = (Inr r, c')
   \<and> created r = created_of tr \<and> errors r = errors_of tr
   \<and> mset (map fst tr) = mset (concat batches)
   \<and> (\<forall>x out. (x, out) \<in> set tr \<longrightarrow> (\<exists>s0 s. fst (fst (importFn x s0) s) = outcome out))"
  using processBatches_settlements[of env batches importFn c] assms by blast


lemma refuse_six_outcome:
  "fst (fst (refuse_six x s0) s) =
     outcome (if x = 6 then Inl (ApiError ''Could not validate resource data.'') else Inr x)"
  by (simp add: refuse_six_def)



text \<open>
  Claim C4, as the specification has it: a rejection of the worker on one item never
  aborts the other items of its batch or a later batch. It does not hold for a rejection
  with a value that has no header, such as the \<^verbatim>\<open>TypeError\<close> of a request that fails before
  any answer: the handler reads \<^verbatim>\<open>e.header.message\<close> and throws, the promise of the item
  is rejected, \<^verbatim>\<open>Promise.all\<close> rejects and \<^verbatim>\<open>processBatches\<close> leaves its loop. With batches
  of 2, 2 and 1 items and such a rejection in the second batch, \<^verbatim>\<open>processBatches\<close> throws
  and the third batch is never started.
\<close>

theorem processBatches_aborts_without_header:
  "fst (processBatches example_env [[4, 5], [6, 7], [8]] network_failure example_controller) =
     Inl (TypeError ''e.header is undefined'') \<and>
   currentBatchNumber
     (snd (processBatches example_env [[4, 5], [6, 7], [8]] network_failure example_controller)) = 2"
  by code_simp

text \<open>
  Claim C4, amended. When the promises of the worker are rejected only with structured
  errors (values with \<^verbatim>\<open>header.message\<close>, as the creation calls of the specification
  raise), the \<^verbatim>\<open>await Promise.all\<close> of \<^verbatim>\<open>importBatch\<close> does not throw and \<^verbatim>\<open>processBatches\<close>
  returns a result: every item of every batch, before and after a rejected one, has its
  settlement, whose outcome is the outcome of the promise the worker returned for that
  item. A rejection with error \<open>e\<close> on the item \<open>x\<close> is in \<open>errors\<close> as
  \<^verbatim>\<open>{error: e.header.message, resource: x}\<close>, a value is in \<open>created\<close>.
\<close>

theorem processBatches_rejection_does_not_abort:
  assumes "\<forall>x s0 s y. fst (fst (importFn x s0) s) \<noteq> Inl (Unstructured y)"
  shows "\<exists>r c' tr. processBatches env batches importFn c = (Inr r, c')
     \<and> mset (map fst tr) = mset (concat batches)
     \<and> (\<forall>x out. (x, out) \<in> set tr \<longrightarrow> (\<exists>s0 s. fst (fst (importFn x s0) s) = outcome out))
     \<and> created r = created_of tr \<and> errors r = errors_of tr
     \<and> (\<forall>x a. (x, Inl a) \<in> set tr \<longrightarrow>
            \<lparr>error = header_message a, resource = x\<rparr> \<in> set (errors r))
     \<and> (\<forall>x v. (x, Inr v) \<in> set tr \<longrightarrow> v \<in> set (created r))"
proof -
  from processBatches_structured[OF assms, of env batches c]
  obtain r c' tr where t:
    "processBatches env batches importFn c = (Inr r, c')"
    "created r = created_of tr" "errors r = errors_of tr"
    "mset (map fst tr) = mset (concat batches)"
    "\<forall>x out. (x, out) \<in> set tr \<longrightarrow> (\<exists>s0 s. fst (fst (importFn x s0) s) = outcome out)"
    by blast
  have e: "\<forall>x a. (x, Inl a) \<in> set tr \<longrightarrow>
            \<lparr>error = header_message a, resource = x\<rparr> \<in> set (errors r)"
    using t(3) errors_of_mem by fastforce
  have v: "\<forall>x v. (x, Inr v) \<in> set tr \<longrightarrow> v \<in> set (created r)"
    using t(2) created_of_mem by fastforce
  from t e v show ?thesis by blast
qed

text \<open>
  The scenario of the specification: twelve items in batches of 5, 5 and 2, and a worker
  that rejects on one item of the second batch. The third batch is processed, eleven
  values are created and the one error is recorded.
\<close>

theorem processBatches_rejection_does_not_abort_witness:
  "(\<forall>x s0 s y. fst (fst (refuse_six x s0) s) \<noteq> Inl (Unstructured y)) \<and>
   (\<exists>r c'. processBatches example_env [[0, 1, 2, 3, 4], [5, 6, 7, 8, 9], [10, 11]]
              refuse_six example_controller = (Inr r, c')
     \<and> mset (created r) = mset [0, 1, 2, 3, 4, 5, 7, 8, 9, 10, 11]
     \<and> errors r = [\<lparr>error = ''Could not validate resource data.'', resource = 6\<rparr>])"
proof -
  let ?w = "\<lambda>x :: nat. if x = 6 then Inl (ApiError ''Could not validate resource data.'') else Inr x"
  have st: "\<forall>x s0 s y. fst (fst (refuse_six x s0) s) \<noteq> Inl (Unstructured y)"
    by (simp add: refuse_six_def)
  from processBatches_rejection_does_not_abort[OF st, of example_env
      "[[0, 1, 2, 3, 4], [5, 6, 7, 8, 9], [10, 11]]" example_controller]
  obtain r c' tr where t:
    "processBatches example_env [[0, 1, 2, 3, 4], [5, 6, 7, 8, 9], [10, 11]]
       refuse_six example_controller = (Inr r, c')"
    "mset (map fst tr) = mset (concat [[0, 1, 2, 3, 4], [5, 6, 7, 8, 9], [10, 11 :: nat]])"
    "\<forall>x out. (x, out) \<in> set tr \<longrightarrow> (\<exists>s0 s. fst (fst (refuse_six x s0) s) = outcome out)"
    "created r = created_of tr" "errors r = errors_of tr"
    by blast
  have det: "\<forall>x out. (x, out) \<in> set tr \<longrightarrow> out = ?w x"
  proof (intro allI impI)
    fix x out assume "(x, out) \<in> set tr"
    with t(3) obtain s0 s where "fst (fst (refuse_six x s0) s) = outcome out" by blast
    then have "outcome out = outcome (?w x)" by (simp only: refuse_six_outcome)
    then show "out = ?w x" by (rule outcome_inject)
  qed
  note d = settlements_determined[OF det t(2)]
  have c: "mset (created r) = mset [0, 1, 2, 3, 4, 5, 7, 8, 9, 10, 11]"
    using d(2) t(4) by simp
  have "mset (errors r) = mset [\<lparr>error = ''Could not validate resource data.'', resource = 6\<rparr>]"
    using d(1) t(5) by simp
  then have "errors r = [\<lparr>error = ''Could not validate resource data.'', resource = 6\<rparr>]"
    by (metis mset_single_iff_right mset.simps(1,2))
  with t(1) c st show ?thesis by blast
qed

subsection \<open>A folder without a registered parent\<close>

lemma saveFolder_call_folders: "folders (snd (saveFolder env x s)) = folders s"
  by (simp add: saveFolder_def Let_def split: option.splits)

lemma saveFolder_structured: "fst (fst (saveFolder env x s0) s) \<noteq> Inl (Unstructured y)"
  by (simp add: saveFolder_def Let_def split: option.splits sum.splits)

lemma saveResource_structured: "fst (fst (saveResource env x s0) s) \<noteq> Inl (Unstructured y)"
  by (simp add: saveResource_def Let_def split: option.splits sum.splits)

lemma saveFolder_without_parent:
  assumes "folderParent folderPath \<noteq> []"
    and "folders c (folderParent folderPath) = None"
  shows "saveFolder env folderPath c = ((\<lambda>c'. (Inr None, c')), c)"
  using assms by (simp add: saveFolder_def Let_def getFolderFromPath_def)

text \<open>
  Claim C1, as the specification has it: a folder whose parent path is not empty and not
  in the registry is skipped without an error, and is absent from \<open>created\<close> and from
  \<open>errors\<close>. It does not hold for \<open>created\<close>: a skipped \<^verbatim>\<open>saveFolder\<close> is a fulfilled promise
  with the value \<^verbatim>\<open>undefined\<close>, and the handler of \<^verbatim>\<open>importBatch\<close> appends that value to
  \<open>created\<close> as it appends an entity. For the single path \<^verbatim>\<open>/tag/A/B\<close> and an empty
  registry the result has one element in \<open>created\<close>, not none.
\<close>

theorem skipped_folder_in_created:
  "fst (processBatches example_env [[''/tag/A/B'']] (saveFolder example_env) example_controller) =
     Inr \<lparr>created = [None], errors = []\<rparr>"
  by code_simp

text \<open>
  Claim C1, amended. For every folder path whose parent path is not empty and not in the
  registry when the batch with that path starts (the calls of \<^verbatim>\<open>saveFolder\<close> in a batch are
  all made before any folder of the batch is registered), \<^verbatim>\<open>saveFolder\<close> makes no creation
  call, changes nothing and returns a promise fulfilled with \<^verbatim>\<open>undefined\<close>; the batch
  does not throw, no element of its \<open>errors\<close> is for that path, and its \<open>created\<close> has
  \<^verbatim>\<open>undefined\<close> as an element, the two lists having one element for each item of the batch.
\<close>

theorem saveFolder_skip:
  assumes "folderParent folderPath \<noteq> []"
    and "getFolderFromPath c (folderParent folderPath) = None"
    and "folderPath \<in> set batch"
  shows "saveFolder env folderPath c = ((\<lambda>c'. (Inr None, c')), c)
       \<and> (\<exists>r c'. importBatch env batch n (saveFolder env) c = (Inr r, c')
             \<and> (\<forall>er \<in> set (errors r). resource er \<noteq> folderPath)
             \<and> None \<in> set (created r)
             \<and> length (created r) + length (errors r) = length batch)"
proof
  have par: "folders c (folderParent folderPath) = None"
    using assms(2) by (simp add: getFolderFromPath_def)
  show "saveFolder env folderPath c = ((\<lambda>c'. (Inr None, c')), c)"
    using saveFolder_without_parent[OF assms(1) par] .
  let ?P = "\<lambda>s. folders s = folders c"
  have P1: "?P (c\<lparr>currentBatchNumber := currentBatchNumber c + 1\<rparr>)" by simp
  have Pcall: "\<And>x s. ?P s \<Longrightarrow> ?P (snd (saveFolder env x s))"
    by (simp add: saveFolder_call_folders)
  from importBatch_settlements[of ?P c "saveFolder env" "\<lambda>_. True" env batch n, OF P1 Pcall]
    saveFolder_structured[of env]
  obtain r c' tr where t:
    "importBatch env batch n (saveFolder env) c = (Inr r, c')"
    "created r = created_of tr" "errors r = errors_of tr"
    "mset (map fst tr) = mset batch"
    "\<forall>x out. (x, out) \<in> set tr \<longrightarrow>
       (\<exists>s0 s. folders s0 = folders c \<and> fst (fst (saveFolder env x s0) s) = outcome out)"
    by auto
  have skip: "\<forall>out. (folderPath, out) \<in> set tr \<longrightarrow> out = Inr None"
  proof (intro allI impI)
    fix out assume "(folderPath, out) \<in> set tr"
    with t(5) obtain s0 s where s0: "folders s0 = folders c"
      "fst (fst (saveFolder env folderPath s0) s) = outcome out" by blast
    from s0(1) par have "folders s0 (folderParent folderPath) = None" by simp
    from saveFolder_without_parent[OF assms(1) this] s0(2)
    have "outcome out = outcome (Inr None)" by simp
    then show "out = Inr None" by (rule outcome_inject)
  qed
  have noerr: "\<forall>er \<in> set (errors r). resource er \<noteq> folderPath"
  proof
    fix er assume "er \<in> set (errors r)"
    then obtain e where "(resource er, Inl e) \<in> set tr"
      using t(3) errors_of_resource by fastforce
    with skip show "resource er \<noteq> folderPath" by auto
  qed
  have "folderPath \<in> set (map fst tr)"
    using assms(3) t(4) by (metis mset_eq_setD)
  then obtain out where "(folderPath, out) \<in> set tr" by auto
  with skip have "(folderPath, Inr None) \<in> set tr" by auto
  then have cr: "None \<in> set (created r)"
    using t(2) created_of_mem by fastforce
  have "length tr = length batch" using t(4) by (metis length_map size_mset)
  then have len: "length (created r) + length (errors r) = length batch"
    using t(2,3) by (simp add: length_created_errors_of)
  from t(1) noerr cr len
  show "\<exists>r c'. importBatch env batch n (saveFolder env) c = (Inr r, c')
             \<and> (\<forall>er \<in> set (errors r). resource er \<noteq> folderPath)
             \<and> None \<in> set (created r)
             \<and> length (created r) + length (errors r) = length batch"
    by blast
qed

theorem saveFolder_skip_witness:
  "folderParent ''/tag/A/B'' \<noteq> [] \<and>
   getFolderFromPath example_controller (folderParent ''/tag/A/B'') = None \<and>
   saveFolder example_env ''/tag/A/B'' example_controller = ((\<lambda>c'. (Inr None, c')), example_controller) \<and>
   (\<exists>r c'. importBatch example_env [''/tag/A/B''] 0 (saveFolder example_env) example_controller = (Inr r, c')
        \<and> (\<forall>er \<in> set (errors r). resource er \<noteq> ''/tag/A/B'')
        \<and> None \<in> set (created r)
        \<and> length (created r) + length (errors r) = length [''/tag/A/B''])"
proof -
  have a: "folderParent ''/tag/A/B'' \<noteq> []" by code_simp
  have b: "getFolderFromPath example_controller (folderParent ''/tag/A/B'') = None"
    by (simp add: getFolderFromPath_def example_controller_def constructor_def)
  have c: "''/tag/A/B'' \<in> set [''/tag/A/B'']" by simp
  from saveFolder_skip[OF a b c, of example_env 0] a b show ?thesis by blast
qed
section \<open>The run\<close>

subsection \<open>An encryption that returns the wrong number of payloads\<close>

lemma init_effects: "effects (snd (init env c)) = effects c"
  by (simp add: init_def initFromKdbx_def initFromCsv_def split: sum.splits prod.splits)

lemma encryptAll_callbacks_items [simp]: "items (encryptAll_callbacks ps c) = items c"
  by (induction ps arbitrary: c) (simp_all add: onStart_def onComplete_def progress_update_def)

lemma encryptAll_callbacks_operationsCount [simp]:
  "operationsCount (encryptAll_callbacks ps c) = operationsCount c"
  by (induction ps arbitrary: c) (simp_all add: onStart_def onComplete_def progress_update_def)

lemma encryptAll_callbacks_effects:
  "\<exists>log. effects (encryptAll_callbacks ps c) = effects c @ log \<and> (\<forall>e \<in> set log. \<not> is_creation e)"
proof (induction ps arbitrary: c)
  case Nil
  show ?case by simp
next
  case (Cons p ps)
  let ?c1 = "onComplete (onStart p c)"
  from Cons[of ?c1] obtain log where log:
    "effects (encryptAll_callbacks ps ?c1) = effects ?c1 @ log" "\<forall>e \<in> set log. \<not> is_creation e"
    by blast
  obtain u1 u2 where u: "effects ?c1 = effects c @ [ProgressUpdate u1 (Some u2), ProgressUpdate u1 None]"
    by (simp add: onStart_def onComplete_def progress_update_def)
  show ?case
  proof (intro exI conjI)
    show "effects (encryptAll_callbacks (p # ps) c) =
            effects c @ ([ProgressUpdate u1 (Some u2), ProgressUpdate u1 None] @ log)"
      using log(1) u by simp
    show "\<forall>e \<in> set ([ProgressUpdate u1 (Some u2), ProgressUpdate u1 None] @ log). \<not> is_creation e"
      using log(2) by simp
  qed
qed

lemma prepareResources_refs: "fst (prepareResources refs uid st) = refs"
  by (simp add: prepareResources_def)

lemma encryptSecretsForUser_result:
  "encryptSecretsForUser env uid c =
     (let st = snd (prepareResources (items_resources (items c)) uid (store c));
          refs = items_resources (items c);
          objs = map st refs;
          c1 = c\<lparr>items := (items c)\<lparr>items_resources := refs\<rparr>, store := st\<rparr>
      in (crypto_encryptAll env objs,
          encryptAll_callbacks [0 ..< length objs] (c1\<lparr>effects := effects c1 @ [EncryptAll objs]\<rparr>)))"
  by (simp add: encryptSecretsForUser_def encryptAll_def prepareResources_def Let_def)

lemma encrypt_mismatch:
  assumes "keyring_sync env = None"
    and "crypto_encryptAll env
           (map (snd (prepareResources (items_resources (items c)) (user_id env) (store c)))
              (items_resources (items c))) = Inr armoredSecrets"
    and "length armoredSecrets \<noteq> length (items_resources (items c))"
  shows "\<exists>c' log.
           encryptSecretsAndAddToResources env c =
             (Inl (Error ''There was a problem while encrypting the secrets''), c')
         \<and> effects c' = effects c @ log \<and> (\<forall>e \<in> set log. \<not> is_creation e)"
proof -
  let ?refs = "items_resources (items c)"
  let ?st = "snd (prepareResources ?refs (user_id env) (store c))"
  let ?objs = "map ?st ?refs"
  let ?c3 = "c\<lparr>resources := ?refs, operationsCount := length ?refs * 2,
               effects := effects c @ [KeyringSync]\<rparr>"
  let ?c4 = "?c3\<lparr>items := (items ?c3)\<lparr>items_resources := ?refs\<rparr>, store := ?st\<rparr>"
  let ?c5 = "encryptAll_callbacks [0 ..< length ?objs] (?c4\<lparr>effects := effects ?c4 @ [EncryptAll ?objs]\<rparr>)"
  have enc: "encryptSecretsForUser env (user_id env) ?c3 = (Inr armoredSecrets, ?c5)"
    using assms(2) by (simp add: encryptSecretsForUser_result Let_def)
  have len: "length armoredSecrets \<noteq> length (items_resources (items ?c5))"
    using assms(3) by simp
  have res: "encryptSecretsAndAddToResources env c =
               (Inl (Error ''There was a problem while encrypting the secrets''), ?c5)"
    using assms(1) enc len
    by (simp add: encryptSecretsAndAddToResources_def Let_def
          enrichResourcesWithArmoredSecret_def del: encryptAll_callbacks.simps upt.simps)
  from encryptAll_callbacks_effects[of "[0 ..< length ?objs]"
      "?c4\<lparr>effects := effects ?c4 @ [EncryptAll ?objs]\<rparr>"]
  obtain log where log:
    "effects ?c5 = effects (?c4\<lparr>effects := effects ?c4 @ [EncryptAll ?objs]\<rparr>) @ log"
    "\<forall>e \<in> set log. \<not> is_creation e"
    by blast
  have eff: "effects ?c5 = effects c @ (KeyringSync # EncryptAll ?objs # log)"
    using log(1) by simp
  have nc: "\<forall>e \<in> set (KeyringSync # EncryptAll ?objs # log). \<not> is_creation e"
    using log(2) by simp
  from res eff nc show ?thesis by blast
qed

lemma prepared_unchanged:
  "items_resources (items (prepareProgressCounter (prepareFolders c))) = items_resources (items c)"
  "store (prepareProgressCounter (prepareFolders c)) = store c"
  "effects (prepareProgressCounter (prepareFolders c)) = effects c"
  by (simp_all add: prepareProgressCounter_def prepareFolders_def Let_def)

text \<open>
  Claim C5. When the file is decoded, the keyring is synchronised and the encryption
  returns a list of payloads whose length is not the number of resources, \<^verbatim>\<open>exec\<close> returns
  by throwing an error (the \<^verbatim>\<open>Error\<close> made of the text of the one thrown by
  \<^verbatim>\<open>_enrichResourcesWithArmoredSecret\<close>); the calls it has made to its collaborators are
  the opening of the progress dialog, calls of which none creates a folder or a resource,
  and last the closing of the progress dialog.
\<close>

theorem exec_encryption_mismatch:
  assumes "init env c = (Inr (), c1)"
    and "keyring_sync env = None"
    and "crypto_encryptAll env
           (map (snd (prepareResources (items_resources (items c1)) (user_id env) (store c1)))
              (items_resources (items c1))) = Inr armoredSecrets"
    and "length armoredSecrets \<noteq> length (items_resources (items c1))"
  shows "\<exists>c' n log.
           exec env c =
             Some (Inl (Error ''Error: There was a problem while encrypting the secrets''), c')
         \<and> effects c' =
             effects c @ [ProgressOpen ''Importing ...'' n ''Preparing import''] @ log @ [ProgressClose]
         \<and> (\<forall>e \<in> set log. \<not> is_creation e)"
proof -
  let ?c2 = "prepareProgressCounter (prepareFolders c1)"
  let ?n = "operationsCount ?c2"
  let ?c3 = "progress_open ''Importing ...'' ?n ''Preparing import'' ?c2"
  have e1: "effects c1 = effects c" using init_effects[of env c] assms(1) by simp
  have c3: "items_resources (items ?c3) = items_resources (items c1)" "store ?c3 = store c1"
    "effects ?c3 = effects c @ [ProgressOpen ''Importing ...'' ?n ''Preparing import'']"
    using e1 by (simp_all add: progress_open_def prepared_unchanged)
  have a3: "crypto_encryptAll env
           (map (snd (prepareResources (items_resources (items ?c3)) (user_id env) (store ?c3)))
              (items_resources (items ?c3))) = Inr armoredSecrets"
    using assms(3) by (simp only: c3)
  have a4: "length armoredSecrets \<noteq> length (items_resources (items ?c3))"
    using assms(4) c3(1) by simp
  from encrypt_mismatch[OF assms(2) a3 a4] obtain c4 log where enc:
    "encryptSecretsAndAddToResources env ?c3 =
       (Inl (Error ''There was a problem while encrypting the secrets''), c4)"
    "effects c4 = effects ?c3 @ log" "\<forall>e \<in> set log. \<not> is_creation e"
    by blast
  have etry: "exec_try env ?c3 =
               Some (Inl (Error ''There was a problem while encrypting the secrets''), c4)"
    using enc(1) by (simp add: exec_try_def)
  have ex: "exec env c =
              Some (Inl (Error ''Error: There was a problem while encrypting the secrets''),
                    progress_close c4)"
    using assms(1) etry by (simp add: exec_def Let_def)
  have eff: "effects (progress_close c4) =
               effects c @ [ProgressOpen ''Importing ...'' ?n ''Preparing import''] @ log @ [ProgressClose]"
    using enc(2) c3(3) by (simp add: progress_close_def)
  from ex eff enc(3) show ?thesis by blast
qed

theorem exec_encryption_mismatch_witness:
  "\<exists>c' n log.
     exec short_env csv_controller =
       Some (Inl (Error ''Error: There was a problem while encrypting the secrets''), c')
   \<and> effects c' =
       effects csv_controller @ [ProgressOpen ''Importing ...'' n ''Preparing import''] @ log @ [ProgressClose]
   \<and> (\<forall>e \<in> set log. \<not> is_creation e)"
proof -
  let ?c1 = "csv_controller\<lparr>items := (items csv_controller)\<lparr>items_resources := [0 ..< 1]\<rparr>,
                             store := example_resource\<rparr>"
  have a: "init short_env csv_controller = (Inr (), ?c1)"
    by (simp add: init_def initFromCsv_def short_env_def example_env_def csv_controller_def
          constructor_def)
  have b: "keyring_sync short_env = None"
    by (simp add: short_env_def example_env_def)
  have c: "crypto_encryptAll short_env
             (map (snd (prepareResources (items_resources (items ?c1)) (user_id short_env) (store ?c1)))
                (items_resources (items ?c1))) = Inr []"
    by (simp add: short_env_def example_env_def)
  have d: "length ([] :: string list) \<noteq> length (items_resources (items ?c1))"
    by simp
  from exec_encryption_mismatch[OF a b c d] show ?thesis .
qed

subsection \<open>The progress counters\<close>

text \<open>
  \<^verbatim>\<open>prepareProgressCounter\<close> counts two operations for each resource and, when folders are
  imported, one for each folder path, as its comments say; the list of folder paths is
  never empty after \<^verbatim>\<open>_prepareFolders\<close>. \<^verbatim>\<open>encryptSecretsAndAddToResources\<close> then assigns
  twice the number of resources to \<^verbatim>\<open>operationsCount\<close>: whenever folders are imported, the
  count of the encryption stage is smaller than the count the progress dialog was opened
  with. The handlers only ever add one to the two other counters.
\<close>

lemma operationsCount_encrypt:
  "operationsCount (snd (encryptSecretsAndAddToResources env c)) =
     length (items_resources (items c)) * 2"
  by (simp add: encryptSecretsAndAddToResources_def Let_def encryptSecretsForUser_result
        enrichResourcesWithArmoredSecret_def split: option.splits sum.splits prod.splits
        del: encryptAll_callbacks.simps upt.simps)

lemma operationsCount_prepare:
  "operationsCount (prepareProgressCounter c) =
     operationsCount c + length (items_resources (items c)) * 2 +
     (if importFolders (options c) then length (foldersPaths (items c)) else 0)"
  by (simp add: prepareProgressCounter_def Let_def)

lemma foldersPaths_prepared_nonempty: "foldersPaths (items (prepareFolders c)) \<noteq> []"
proof -
  have "''/'' @ uniqueImportTag c \<in> set (foldersPaths (items (prepareFolders c)))"
    by (simp add: prepareFolders_def Let_def getConsolidatedPath_def del: append.simps)
  then show ?thesis by auto
qed

lemma encryption_lowers_count:
  assumes "importFolders (options c)"
  shows "operationsCount (snd (encryptSecretsAndAddToResources env
            (progress_open t n m (prepareProgressCounter (prepareFolders c)))))
         < operationsCount (prepareProgressCounter (prepareFolders c))"
proof -
  have o: "options (prepareFolders c) = options c"
    "items_resources (items (prepareFolders c)) = items_resources (items c)"
    by (simp_all add: prepareFolders_def Let_def)
  have "0 < length (foldersPaths (items (prepareFolders c)))"
    using foldersPaths_prepared_nonempty[of c] by simp
  then show ?thesis
    using assms o
    by (simp add: operationsCount_encrypt operationsCount_prepare progress_open_def
          prepareProgressCounter_def Let_def)
qed

lemma item_done_counters:
  "currentItemNumber (item_done c) = currentItemNumber c + 1"
  "currentOperationNumber (item_done c) = currentOperationNumber c + 1"
  "operationsCount (item_done c) = operationsCount c"
  by (simp_all add: item_done_def progress_update_def Let_def)

lemma onComplete_counters:
  "currentOperationNumber (onComplete c) = currentOperationNumber c + 1"
  "currentItemNumber (onComplete c) = currentItemNumber c"
  by (simp_all add: onComplete_def progress_update_def)

text \<open>
  Claim C2 says that no stage lowers \<^verbatim>\<open>operationsCount\<close> after \<^verbatim>\<open>prepareProgressCounter\<close>
  has set it. In the \<^verbatim>\<open>csv\<close> run with one resource and the import of folders switched on,
  \<^verbatim>\<open>prepareProgressCounter\<close> sets it to 3 (two for the resource, one for the root folder),
  and the encryption stage leaves it at 2.
\<close>

theorem operationsCount_lowered_by_encryption:
  "operationsCount csv_progress_init = 3 \<and>
   operationsCount (snd (encryptSecretsAndAddToResources example_env
      (progress_open ''Importing ...'' (operationsCount csv_progress_init) ''Preparing import''
         csv_progress_init))) = 2"
  by code_simp

end
